theory Spec2Isabelle
  imports Main "HOL-Library.Sublist"
begin

section \<open>go-cmdtest: a shallow embedding of cmdtest.go\<close>

text \<open>
  Go strings are byte sequences and are modelled as \<^typ>\<open>string\<close> (a list of 8-bit
  characters); where the Go standard library reads a string as UTF-8
  (\<^verbatim>\<open>strings.TrimSpace\<close>, \<^verbatim>\<open>strings.Fields\<close>) the model works on the UTF-8 encodings.
  Go's \<^verbatim>\<open>int\<close> is taken to be 64 bits wide; it is modelled as \<^typ>\<open>int\<close> and the one
  place that can leave the range (\<^verbatim>\<open>strconv.Atoi\<close>) checks it.
\<close>

subsection \<open>Errors\<close>

text \<open>
  One datatype for the values of Go's \<^verbatim>\<open>error\<close> interface that occur in the package.
  The first six constructors are the errors a command function can hand back:
  \<^verbatim>\<open>syscall.Errno\<close>, \<^verbatim>\<open>*exec.ExitError\<close> (with the value of its \<^verbatim>\<open>ExitCode()\<close>),
  \<^verbatim>\<open>*ExitCodeErr\<close>, an opaque error, an error that wraps one other error
  (\<^verbatim>\<open>fmt.Errorf("...%w", err)\<close>, \<^verbatim>\<open>*os.PathError\<close>), and an error that wraps several
  (\<^verbatim>\<open>errors.Join\<close>). The others are the errors the package itself creates; those built
  with \<^verbatim>\<open>%v\<close> keep the inner error as data but do not unwrap to it.
  \<open>ErrInFile name sep err\<close> is \<^verbatim>\<open>fmt.Errorf("%s" + sep + "%v", name, err)\<close>, and
  \<open>ErrTooLong\<close> is \<^verbatim>\<open>bufio.ErrTooLong\<close>.
\<close>

datatype error =
    Errno nat
  | ExitError int
  | ExitCodeErr string int
  | ErrorString string
  | WrapError string error
  | JoinError "error list"
  | ErrSyntax string
  | ErrRange string
  | ErrZeroExitCode
  | ErrVarNotFound string
  | ErrNoSuchCommand int string
  | ErrSucceeded int string
  | ErrFailedWith int string error
  | ErrNoExitCode int string
  | ErrExitCode int string int int
  | ErrBadLine string int string
  | ErrInFile string string error
  | ErrTooLong

text \<open>
  A Go function that returns \<^verbatim>\<open>(T, error)\<close> and cannot panic is modelled with the sum
  \<open>error + T\<close>. Where a run-time panic is possible (a nil pointer, an index out of
  range) the result is one of three: the function returns a value, returns an error, or
  panics. A panic unwinds through every caller: nothing in the package recovers it.
\<close>

datatype 'a result = Ok 'a | Error error | Panic string

subsection \<open>Library functions on strings\<close>

definition HasPrefix :: "string \<Rightarrow> string \<Rightarrow> bool" where
  "HasPrefix s p = (take (length p) s = p)"

definition HasSuffix :: "string \<Rightarrow> string \<Rightarrow> bool" where
  "HasSuffix s p = (length p \<le> length s \<and> drop (length s - length p) s = p)"

text \<open>
  White space. \<^verbatim>\<open>strings.TrimSpace\<close> and \<^verbatim>\<open>strings.Fields\<close> read the string as UTF-8 and
  ask \<^verbatim>\<open>unicode.IsSpace\<close> about each rune. It holds for U+0009 to U+000D, U+0020, U+0085,
  U+00A0, U+1680, U+2000 to U+200A, U+2028, U+2029, U+202F, U+205F and U+3000;
  \<open>spaceRunes\<close> lists the UTF-8 encodings of these runes. The decoder accepts only the
  shortest encoding of a rune, and a byte that does not start a valid encoding is the
  rune U+FFFD of width one, which is not white space. No encoding in \<open>spaceRunes\<close>
  starts with a continuation byte (\<^verbatim>\<open>0x80\<close> to \<^verbatim>\<open>0xBF\<close>), so an encoding found at any
  position of a string starts a rune there. Hence the rune at the start of a string is
  white space exactly if one of the encodings is a prefix of the string, and the rune
  that \<^verbatim>\<open>utf8.DecodeLastRuneInString\<close> finds at its end is white space exactly if one of
  them is a suffix. \<open>leadingSpace\<close> and \<open>trailingSpace\<close> are the width of the white-space
  rune at the start and at the end of a string, and 0 if there is none.
\<close>

definition spaceRunes :: "string list" where
  "spaceRunes =
     [[CHR 0x09], [CHR 0x0A], [CHR 0x0B], [CHR 0x0C], [CHR 0x0D], [CHR 0x20],
      [CHR 0xC2, CHR 0x85], [CHR 0xC2, CHR 0xA0],
      [CHR 0xE1, CHR 0x9A, CHR 0x80],
      [CHR 0xE2, CHR 0x80, CHR 0x80], [CHR 0xE2, CHR 0x80, CHR 0x81],
      [CHR 0xE2, CHR 0x80, CHR 0x82], [CHR 0xE2, CHR 0x80, CHR 0x83],
      [CHR 0xE2, CHR 0x80, CHR 0x84], [CHR 0xE2, CHR 0x80, CHR 0x85],
      [CHR 0xE2, CHR 0x80, CHR 0x86], [CHR 0xE2, CHR 0x80, CHR 0x87],
      [CHR 0xE2, CHR 0x80, CHR 0x88], [CHR 0xE2, CHR 0x80, CHR 0x89],
      [CHR 0xE2, CHR 0x80, CHR 0x8A],
      [CHR 0xE2, CHR 0x80, CHR 0xA8], [CHR 0xE2, CHR 0x80, CHR 0xA9],
      [CHR 0xE2, CHR 0x80, CHR 0xAF],
      [CHR 0xE2, CHR 0x81, CHR 0x9F],
      [CHR 0xE3, CHR 0x80, CHR 0x80]]"

definition leadingSpace :: "string \<Rightarrow> nat" where
  "leadingSpace s = (case filter (HasPrefix s) spaceRunes of [] \<Rightarrow> 0 | e # _ \<Rightarrow> length e)"

definition trailingSpace :: "string \<Rightarrow> nat" where
  "trailingSpace s = (case filter (HasSuffix s) spaceRunes of [] \<Rightarrow> 0 | e # _ \<Rightarrow> length e)"

lemma HasPrefix_length:
  assumes "HasPrefix s p"
  shows "length p \<le> length s"
proof -
  from assms have "length (take (length p) s) = length p" by (simp add: HasPrefix_def)
  then show ?thesis by simp
qed

lemma leadingSpace_le: "leadingSpace s \<le> length s"
proof (cases "filter (HasPrefix s) spaceRunes")
  case Nil
  then show ?thesis by (simp add: leadingSpace_def)
next
  case (Cons e es)
  then have "HasPrefix s e" by (metis Cons_eq_filterD)
  then show ?thesis using Cons by (simp add: leadingSpace_def HasPrefix_length)
qed

lemma trailingSpace_le: "trailingSpace s \<le> length s"
proof (cases "filter (HasSuffix s) spaceRunes")
  case Nil
  then show ?thesis by (simp add: trailingSpace_def)
next
  case (Cons e es)
  then have "HasSuffix s e" by (metis Cons_eq_filterD)
  then show ?thesis using Cons by (simp add: trailingSpace_def HasSuffix_def)
qed

text \<open>
  \<^verbatim>\<open>strings.TrimSpace\<close> is \<^verbatim>\<open>TrimFunc(s, unicode.IsSpace)\<close> (with a fast path for ASCII
  that gives the same result): the white-space runes are cut off at the start, then at
  the end.
\<close>

function TrimLeftSpace :: "string \<Rightarrow> string" where
  "TrimLeftSpace s =
     (case leadingSpace s of 0 \<Rightarrow> s | Suc k \<Rightarrow> TrimLeftSpace (drop (Suc k) s))"
  by pat_completeness auto
termination
proof (relation "measure length")
  show "wf (measure length)" by simp
next
  fix s :: string and k
  assume "leadingSpace s = Suc k"
  with leadingSpace_le [of s] show "(drop (Suc k) s, s) \<in> measure length" by simp
qed

function TrimRightSpace :: "string \<Rightarrow> string" where
  "TrimRightSpace s =
     (case trailingSpace s of 0 \<Rightarrow> s | Suc k \<Rightarrow> TrimRightSpace (take (length s - Suc k) s))"
  by pat_completeness auto
termination
proof (relation "measure length")
  show "wf (measure length)" by simp
next
  fix s :: string and k
  assume "trailingSpace s = Suc k"
  with trailingSpace_le [of s] show "(take (length s - Suc k) s, s) \<in> measure length" by simp
qed

definition TrimSpace :: "string \<Rightarrow> string" where
  "TrimSpace s = TrimRightSpace (TrimLeftSpace s)"

text \<open>\<^verbatim>\<open>strings.LastIndex\<close>: the greatest index at which \<open>sep\<close> starts in \<open>s\<close>, or \<open>-1\<close>.\<close>

definition LastIndex :: "string \<Rightarrow> string \<Rightarrow> int" where
  "LastIndex s sep =
     (case filter (\<lambda>i. HasPrefix (drop i s) sep) (rev [0..<Suc (length s)]) of
        [] \<Rightarrow> - 1
      | i # _ \<Rightarrow> int i)"

text \<open>
  \<^verbatim>\<open>strconv.Atoi(s)\<close> is \<^verbatim>\<open>strconv.ParseInt(s, 10, 0)\<close> with the name of the function
  changed in the error (for a string of fewer than 19 bytes \<^verbatim>\<open>Atoi\<close> has a loop of its
  own, with the same result). \<^verbatim>\<open>ParseInt\<close> takes off one sign and calls \<^verbatim>\<open>ParseUint\<close>,
  whose loop goes through the bytes from the left: a byte that is not a decimal digit is
  a syntax error, and a value that leaves the range of \<^verbatim>\<open>uint64\<close> is a range error,
  whichever comes first. \<open>cutoff\<close> is the least number whose tenfold exceeds
  \<open>maxUint64\<close>. After a range error \<^verbatim>\<open>ParseUint\<close> returns \<open>maxUint64\<close>, and \<^verbatim>\<open>ParseInt\<close>
  goes on to check the value against the range of \<^verbatim>\<open>int\<close>, from \<open>- 2 ^ 63\<close> to
  \<open>2 ^ 63 - 1\<close>. Both errors are \<^verbatim>\<open>*strconv.NumError\<close> values that hold the whole string.
  The \<^verbatim>\<open>uint64\<close> values of the loop are modelled as integers, with the test for the
  wrap-around of \<^verbatim>\<open>n*10 + d\<close> written as a comparison with \<open>maxUint64\<close>.
\<close>

definition isDigit :: "char \<Rightarrow> bool" where
  "isDigit c = (48 \<le> (of_char c :: nat) \<and> (of_char c :: nat) \<le> 57)"

definition digitVal :: "char \<Rightarrow> int" where
  "digitVal c = int (of_char c) - 48"

datatype numError = SyntaxError | RangeError

definition maxUint64 :: int where
  "maxUint64 = 18446744073709551615"

definition cutoff :: int where
  "cutoff = maxUint64 div 10 + 1"

fun parseUintLoop :: "int \<Rightarrow> string \<Rightarrow> int \<times> numError option" where
  "parseUintLoop n [] = (n, None)"
| "parseUintLoop n (c # cs) =
     (if \<not> isDigit c then (0, Some SyntaxError)
      else if n \<ge> cutoff then (maxUint64, Some RangeError)
      else
        (let n1 = n * 10 + digitVal c
         in if n1 > maxUint64 then (maxUint64, Some RangeError)
            else parseUintLoop n1 cs))"

definition ParseUint :: "string \<Rightarrow> int \<times> numError option" where
  "ParseUint s = (if s = [] then (0, Some SyntaxError) else parseUintLoop 0 s)"

definition ParseInt :: "string \<Rightarrow> error + int" where
  "ParseInt s0 =
     (if s0 = [] then Inl (ErrSyntax s0)
      else
        (let neg = (hd s0 = CHR ''-'');
             s = (if hd s0 = CHR ''+'' \<or> hd s0 = CHR ''-'' then tl s0 else s0)
         in case ParseUint s of
              (un, Some SyntaxError) \<Rightarrow> Inl (ErrSyntax s0)
            | (un, _) \<Rightarrow>
                if \<not> neg \<and> un \<ge> 9223372036854775808 then Inl (ErrRange s0)
                else if neg \<and> un > 9223372036854775808 then Inl (ErrRange s0)
                else Inr (if neg then - un else un)))"

definition Atoi :: "string \<Rightarrow> error + int" where
  "Atoi s = ParseInt s"

subsection \<open>parseCommand\<close>

definition failMarker :: string where
  "failMarker = '' --> FAIL''"

definition parseCommand :: "string \<Rightarrow> error + (string \<times> bool \<times> int)" where
  "parseCommand cmdline =
     (let i = LastIndex cmdline failMarker
      in if i < 0 then Inr (cmdline, False, 0)
         else
           let cmd = take (nat i) cmdline;
               rest = TrimSpace (drop (nat i + length failMarker) cmdline)
           in if length rest > 0
              then (case Atoi rest of
                      Inl err \<Rightarrow> Inl err
                    | Inr wantExitCode \<Rightarrow>
                        if wantExitCode = 0 then Inl ErrZeroExitCode
                        else Inr (cmd, True, wantExitCode))
              else Inr (cmd, True, 0))"

subsection \<open>expandVariables\<close>

text \<open>
  \<^verbatim>\<open>varRegexp\<close> is \<^verbatim>\<open>\$\{([^${}]+)\}\<close>. \<open>matchAt s\<close> matches it at the start of \<open>s\<close> and
  returns the length of the match: the two bytes \<^verbatim>\<open>${\<close>, the longest run of bytes other
  than \<^verbatim>\<open>$\<close>, \<^verbatim>\<open>{\<close> and \<^verbatim>\<open>}\<close> (it has to be non-empty), and a closing \<^verbatim>\<open>}\<close>.
  \<open>FindStringSubmatchIndex\<close> is \<^verbatim>\<open>varRegexp.FindStringSubmatchIndex\<close>: the leftmost
  match, as the four indices \<^verbatim>\<open>ixs[0..3]\<close> (match start, match end, name start, name end),
  or \<open>None\<close> for \<^verbatim>\<open>nil\<close>.
\<close>

definition isNameChar :: "char \<Rightarrow> bool" where
  "isNameChar c = (c \<noteq> CHR ''$'' \<and> c \<noteq> CHR ''{'' \<and> c \<noteq> CHR ''}'')"

fun matchAt :: "string \<Rightarrow> nat option" where
  "matchAt (a # b # rest) =
     (if a = CHR ''$'' \<and> b = CHR ''{''
      then (let name = takeWhile isNameChar rest
            in if name \<noteq> [] \<and> HasPrefix (drop (length name) rest) ''}''
               then Some (length name + 3) else None)
      else None)"
| "matchAt _ = None"

fun FindStringSubmatchIndex :: "string \<Rightarrow> (nat \<times> nat \<times> nat \<times> nat) option" where
  "FindStringSubmatchIndex [] = None"
| "FindStringSubmatchIndex (c # cs) =
     (case matchAt (c # cs) of
        Some e \<Rightarrow> Some (0, e, 2, e - 1)
      | None \<Rightarrow>
          map_option (\<lambda>(i0, i1, i2, i3). (Suc i0, Suc i1, Suc i2, Suc i3))
            (FindStringSubmatchIndex cs))"

lemma matchAt_bounds: "matchAt s = Some e \<Longrightarrow> 3 < e \<and> e \<le> length s"
proof (induction s rule: matchAt.induct)
  case (1 a b rest)
  let ?n = "takeWhile isNameChar rest"
  from 1 have n: "?n \<noteq> []" and p: "HasPrefix (drop (length ?n) rest) ''}''"
    and e: "e = length ?n + 3"
    by (auto simp: Let_def split: if_splits)
  from p have "drop (length ?n) rest \<noteq> []" by (auto simp: HasPrefix_def)
  then have "length ?n < length rest" by simp
  with n e show ?case by (cases ?n) auto
qed simp_all

lemma FindStringSubmatchIndex_bounds:
  "FindStringSubmatchIndex s = Some (i0, i1, i2, i3) \<Longrightarrow> i0 < i1 \<and> i1 \<le> length s"
proof (induction s arbitrary: i0 i1 i2 i3)
  case Nil
  then show ?case by simp
next
  case (Cons c cs)
  show ?case
  proof (cases "matchAt (c # cs)")
    case (Some e)
    with Cons.prems matchAt_bounds [OF Some] show ?thesis by auto
  next
    case None
    with Cons.prems obtain j0 j1 j2 j3 where
      "FindStringSubmatchIndex cs = Some (j0, j1, j2, j3)" "i0 = Suc j0" "i1 = Suc j1"
      by auto
    with Cons.IH show ?thesis by auto
  qed
qed

text \<open>
  The \<^verbatim>\<open>for\<close> loop of \<^verbatim>\<open>expandVariables\<close>, with the \<^verbatim>\<open>strings.Builder\<close> as the
  accumulator \<open>sb\<close>. Each round cuts the string after the match, so it gets shorter.
\<close>

function expandLoop :: "(string \<Rightarrow> string option) \<Rightarrow> string \<Rightarrow> string \<Rightarrow> error + string" where
  "expandLoop lookup sb s =
     (case FindStringSubmatchIndex s of
        None \<Rightarrow> Inr (sb @ s)
      | Some (i0, i1, i2, i3) \<Rightarrow>
          (let varName = take (i3 - i2) (drop i2 s)
           in case lookup varName of
                None \<Rightarrow> Inl (ErrVarNotFound varName)
              | Some varVal \<Rightarrow> expandLoop lookup (sb @ take i0 s @ varVal) (drop i1 s)))"
  by pat_completeness auto
termination
proof (relation "measure (\<lambda>(lookup, sb, s). length s)")
  show "wf (measure (\<lambda>(lookup, sb, s). length s))" by simp
next
  fix lookup :: "string \<Rightarrow> string option" and sb s :: string and x2 i0 x i1 xa i2 i3 xb varVal
  assume "FindStringSubmatchIndex s = Some x2" "(i0, x) = x2" "(i1, xa) = x" "(i2, i3) = xa"
  then have "FindStringSubmatchIndex s = Some (i0, i1, i2, i3)" by simp
  from FindStringSubmatchIndex_bounds [OF this]
  show "((lookup, sb @ take i0 s @ varVal, drop i1 s), lookup, sb, s)
          \<in> measure (\<lambda>(lookup, sb, s). length s)"
    by (simp, arith)
qed

definition expandVariables :: "string \<Rightarrow> (string \<Rightarrow> string option) \<Rightarrow> error + string" where
  "expandVariables s lookup = expandLoop lookup [] s"

text \<open>The lookup function of \<^verbatim>\<open>TestExpandVariables\<close>.\<close>

definition testLookup :: "string \<Rightarrow> string option" where
  "testLookup name =
     (if name = ''A'' then Some ''1'' else if name = ''B_C'' then Some ''234'' else None)"

text \<open>
  Notions to state the claims about \<open>expandVariables\<close> with: a name is a non-empty
  string without \<^verbatim>\<open>$\<close>, \<^verbatim>\<open>{\<close> and \<^verbatim>\<open>}\<close>; \<open>varRef n\<close> is the reference \<^verbatim>\<open>${n}\<close>;
  \<open>refAt s i\<close> says that a reference starts at index \<open>i\<close> of \<open>s\<close>;
  \<open>allRefsDefined s lookup\<close> that every reference occurring in \<open>s\<close> names a variable
  that \<open>lookup\<close> defines; \<open>dollarsAreRefs s\<close> that every \<^verbatim>\<open>$\<close> of \<open>s\<close> starts a
  reference. \<open>refNameAt s i\<close> computes the name of the reference at index \<open>i\<close>, if any.
\<close>

definition isName :: "string \<Rightarrow> bool" where
  "isName n = (n \<noteq> [] \<and> list_all isNameChar n)"

definition varRef :: "string \<Rightarrow> string" where
  "varRef n = ''${'' @ n @ ''}''"

definition refAt :: "string \<Rightarrow> nat \<Rightarrow> bool" where
  "refAt s i = (\<exists>n. isName n \<and> prefix (varRef n) (drop i s))"

definition allRefsDefined :: "string \<Rightarrow> (string \<Rightarrow> string option) \<Rightarrow> bool" where
  "allRefsDefined s lookup =
     (\<forall>i n. isName n \<and> prefix (varRef n) (drop i s) \<longrightarrow> lookup n \<noteq> None)"

definition dollarsAreRefs :: "string \<Rightarrow> bool" where
  "dollarsAreRefs s = (\<forall>i<length s. s ! i = CHR ''$'' \<longrightarrow> refAt s i)"

definition refNameAt :: "string \<Rightarrow> nat \<Rightarrow> string option" where
  "refNameAt s i = map_option (\<lambda>e. take (e - 3) (drop (i + 2) s)) (matchAt (drop i s))"

subsection \<open>Test files\<close>

text \<open>
  The structs \<^verbatim>\<open>testCase\<close> and \<^verbatim>\<open>testFile\<close>. A nil slice is the empty list; only for
  \<open>gotOutput\<close> does the package tell nil from a slice (in \<^verbatim>\<open>testCase.write\<close>), so it is
  an option. The \<^verbatim>\<open>suite\<close> pointer of a \<^verbatim>\<open>testFile\<close> is passed as an argument where it is
  needed. The field \<^verbatim>\<open>suffix\<close> is called \<open>suffixLines\<close> here.
\<close>

record testCase =
  before :: "string list"
  startLine :: int
  commands :: "string list"
  gotOutput :: "string list option"
  wantOutput :: "string list"

record testFile =
  filename :: string
  cases :: "testCase list"
  suffixLines :: "string list"

definition newCase :: "int \<Rightarrow> string list \<Rightarrow> testCase" where
  "newCase lineno pre =
     \<lparr>before = pre, startLine = lineno, commands = [], gotOutput = None, wantOutput = []\<rparr>"

definition addCommandLine :: "testCase \<Rightarrow> string \<Rightarrow> testCase" where
  "addCommandLine tc line = tc\<lparr>commands := commands tc @ [TrimSpace (drop 1 line)]\<rparr>"

text \<open>
  The loop of \<^verbatim>\<open>addCase\<close> counts \<open>i\<close> down from the last line to the first line that
  is neither empty nor a comment. \<open>trimIndex out n\<close> is the value of \<open>i\<close> after the
  \<^verbatim>\<open>i++\<close> that follows the loop, when the loop starts at \<open>i = n - 1\<close>.
\<close>

fun trimIndex :: "string list \<Rightarrow> nat \<Rightarrow> nat" where
  "trimIndex out 0 = 0"
| "trimIndex out (Suc i) =
     (if out ! i \<noteq> [] \<and> hd (out ! i) \<noteq> CHR ''#'' then Suc i else trimIndex out i)"

definition addCase :: "testFile \<Rightarrow> testCase \<Rightarrow> testFile \<times> string list" where
  "addCase tf tc =
     (let i = trimIndex (wantOutput tc) (length (wantOutput tc));
          keep = take i (wantOutput tc);
          suffix = drop i (wantOutput tc)
      in (tf\<lparr>cases := cases tf @ [tc\<lparr>wantOutput := keep\<rparr>]\<rparr>, suffix))"

subsection \<open>readFile\<close>

text \<open>
  \<^verbatim>\<open>bufio.Scanner\<close> with its default split function \<^verbatim>\<open>ScanLines\<close>: the text is cut at
  every newline, a last line without a newline counts if it is not empty, and one
  carriage return at the end of a line is dropped. A line of \<open>MaxScanTokenSize\<close> bytes or more does not
  fit the scanner's buffer: scanning stops there and \<^verbatim>\<open>scanner.Err()\<close> is
  \<^verbatim>\<open>bufio.ErrTooLong\<close>. \<open>Scan\<close> returns the lines that \<^verbatim>\<open>scanner.Text()\<close> yields and the
  final \<^verbatim>\<open>scanner.Err()\<close>. Errors of the operating system (opening or reading the file)
  are not modelled: \<open>readFile\<close> is given the content of the file.
\<close>

fun splitLines :: "string \<Rightarrow> string \<Rightarrow> string list" where
  "splitLines cur [] = (if cur = [] then [] else [cur])"
| "splitLines cur (c # cs) =
     (if c = CHR 0x0A then cur # splitLines [] cs else splitLines (cur @ [c]) cs)"

definition dropCR :: "string \<Rightarrow> string" where
  "dropCR data = (if data \<noteq> [] \<and> last data = CHR 0x0D then butlast data else data)"

definition MaxScanTokenSize :: nat where
  "MaxScanTokenSize = 64 * 1024"

definition Scan :: "string \<Rightarrow> string list \<times> error option" where
  "Scan content =
     (let ls = splitLines [] content;
          ok = takeWhile (\<lambda>l. length l < MaxScanTokenSize) ls
      in (map dropCR ok, if length ok < length ls then Some ErrTooLong else None))"

datatype parseState = beforeFirstCommand | inCommands | inOutput

text \<open>The local variables of \<^verbatim>\<open>readFile\<close> that the loop changes.\<close>

record locals =
  l_tf :: testFile
  l_tc :: "testCase option"
  l_lineno :: int
  l_prefix :: "string list"
  l_state :: parseState

text \<open>One round of the loop, for the line \<open>line0\<close>.\<close>

definition readLine :: "locals \<Rightarrow> string \<Rightarrow> locals result" where
  "readLine v0 line0 =
     (let v = v0\<lparr>l_lineno := l_lineno v0 + 1\<rparr>;
          lineno = l_lineno v;
          isCommand = HasPrefix line0 ''$''
      in case l_state v of
           beforeFirstCommand \<Rightarrow>
             if isCommand
             then Ok (v\<lparr>l_tc := Some (addCommandLine (newCase lineno (l_prefix v)) line0),
                        l_state := inCommands\<rparr>)
             else
               (let line = TrimSpace line0
                in if line = [] \<or> hd line = CHR ''#''
                   then Ok (v\<lparr>l_prefix := l_prefix v @ [line]\<rparr>)
                   else Error (ErrBadLine (filename (l_tf v)) lineno line))
         | inCommands \<Rightarrow>
             (case l_tc v of
                None \<Rightarrow> Panic ''nil pointer dereference''
              | Some tc \<Rightarrow>
                  if isCommand then Ok (v\<lparr>l_tc := Some (addCommandLine tc line0)\<rparr>)
                  else Ok (v\<lparr>l_tc := Some (tc\<lparr>wantOutput := wantOutput tc @ [line0]\<rparr>),
                             l_state := inOutput\<rparr>))
         | inOutput \<Rightarrow>
             (case l_tc v of
                None \<Rightarrow> Panic ''nil pointer dereference''
              | Some tc \<Rightarrow>
                  if isCommand
                  then (let (tf', prefix') = addCase (l_tf v) tc
                        in Ok (v\<lparr>l_tf := tf', l_prefix := prefix',
                                 l_tc := Some (addCommandLine (newCase lineno prefix') line0),
                                 l_state := inCommands\<rparr>))
                  else Ok (v\<lparr>l_tc := Some (tc\<lparr>wantOutput := wantOutput tc @ [line0]\<rparr>)\<rparr>)))"

fun readLines :: "locals \<Rightarrow> string list \<Rightarrow> locals result" where
  "readLines v [] = Ok v"
| "readLines v (line # rest) =
     (case readLine v line of
        Ok v' \<Rightarrow> readLines v' rest
      | Error err \<Rightarrow> Error err
      | Panic msg \<Rightarrow> Panic msg)"

text \<open>
  \<open>parseLines\<close> is \<^verbatim>\<open>readFile\<close> for a scanner that yields \<open>lines\<close> and then ends with
  \<open>scanErr\<close>: the loop, the check of \<^verbatim>\<open>scanner.Err()\<close> and the closing of the last case.
\<close>

definition parseLines :: "string \<Rightarrow> string list \<Rightarrow> error option \<Rightarrow> testFile result" where
  "parseLines name lines scanErr =
     (let tf = \<lparr>filename = name, cases = [], suffixLines = []\<rparr>;
          v0 = \<lparr>l_tf = tf, l_tc = None, l_lineno = 0, l_prefix = [],
                 l_state = beforeFirstCommand\<rparr>
      in case readLines v0 lines of
           Error err \<Rightarrow> Error err
         | Panic msg \<Rightarrow> Panic msg
         | Ok v \<Rightarrow>
             (case scanErr of
                Some err \<Rightarrow> Error err
              | None \<Rightarrow>
                  (case l_tc v of
                     None \<Rightarrow> Ok (l_tf v)
                   | Some tc \<Rightarrow>
                       (let (tf', suffix) = addCase (l_tf v) tc
                        in Ok (tf'\<lparr>suffixLines := suffix\<rparr>)))))"

definition readFile :: "string \<Rightarrow> string \<Rightarrow> testFile result" where
  "readFile name content = (case Scan content of (lines, scanErr) \<Rightarrow> parseLines name lines scanErr)"

subsection \<open>Writing a test file\<close>

text \<open>
  An \<^verbatim>\<open>io.Writer\<close> is a state \<open>'w\<close> with a write function that may fail. \<open>bufferWrite\<close>
  is the writer that appends to a byte buffer and never fails.
\<close>

type_synonym 'w writer = "'w \<Rightarrow> string \<Rightarrow> error option \<times> 'w"

definition bufferWrite :: "string writer" where
  "bufferWrite buf data = (None, buf @ data)"

fun writeLines :: "'w writer \<Rightarrow> 'w \<Rightarrow> string list \<Rightarrow> error option \<times> 'w" where
  "writeLines wr w [] = (None, w)"
| "writeLines wr w (l # ls) =
     (case wr w l of
        (Some err, w') \<Rightarrow> (Some err, w')
      | (None, w') \<Rightarrow>
          (case wr w' [CHR 0x0A] of
             (Some err, w'') \<Rightarrow> (Some err, w'')
           | (None, w'') \<Rightarrow> writeLines wr w'' ls))"

fun writeCommandList :: "'w writer \<Rightarrow> 'w \<Rightarrow> string list \<Rightarrow> error option \<times> 'w" where
  "writeCommandList wr w [] = (None, w)"
| "writeCommandList wr w (c # cs) =
     (case wr w (''$ '' @ c @ [CHR 0x0A]) of
        (Some err, w') \<Rightarrow> (Some err, w')
      | (None, w') \<Rightarrow> writeCommandList wr w' cs)"

definition writeCommands :: "'w writer \<Rightarrow> 'w \<Rightarrow> testCase \<Rightarrow> error option \<times> 'w" where
  "writeCommands wr w tc = writeCommandList wr w (commands tc)"

definition tc_write :: "'w writer \<Rightarrow> 'w \<Rightarrow> testCase \<Rightarrow> error option \<times> 'w" where
  "tc_write wr w tc =
     (case writeLines wr w (before tc) of
        (Some err, w1) \<Rightarrow> (Some err, w1)
      | (None, w1) \<Rightarrow>
          (case writeCommands wr w1 tc of
             (Some err, w2) \<Rightarrow> (Some err, w2)
           | (None, w2) \<Rightarrow>
               writeLines wr w2
                 (case gotOutput tc of None \<Rightarrow> wantOutput tc | Some out \<Rightarrow> out)))"

fun writeCases :: "'w writer \<Rightarrow> 'w \<Rightarrow> testCase list \<Rightarrow> error option \<times> 'w" where
  "writeCases wr w [] = (None, w)"
| "writeCases wr w (c # cs) =
     (case tc_write wr w c of
        (Some err, w') \<Rightarrow> (Some err, w')
      | (None, w') \<Rightarrow> writeCases wr w' cs)"

definition tf_write :: "'w writer \<Rightarrow> 'w \<Rightarrow> testFile \<Rightarrow> error option \<times> 'w" where
  "tf_write wr w tf =
     (case writeCases wr w (cases tf) of
        (Some err, w') \<Rightarrow> (Some err, w')
      | (None, w') \<Rightarrow> writeLines wr w' (suffixLines tf))"

subsection \<open>Notions for the claims about test files\<close>

text \<open>
  A line is ignorable for \<^verbatim>\<open>addCase\<close> when it is empty or starts with \<^verbatim>\<open>#\<close>; it is a
  command line when it starts with \<^verbatim>\<open>$\<close>. \<open>canonFrom seen ls\<close> is the form in which the
  lines \<open>ls\<close> of a file come back from reading and writing, where \<open>seen\<close> says whether a
  command line came before: a command line is written as \<^verbatim>\<open>$\<close>, a space and the trimmed
  command; a line before the first command line is trimmed; every other line is kept.
  \<open>unlines\<close> ends every line with a newline. \<open>caseLines\<close> and \<open>fileLines\<close> are the lines
  that \<open>tc_write\<close> and \<open>tf_write\<close> write, and \<open>roundTrip\<close> reads a file and writes it to a
  buffer. \<open>pendingLines\<close>, \<open>goodCase\<close> and \<open>inv\<close> state the invariant of the loop of
  \<^verbatim>\<open>readFile\<close>. \<open>splitAsStated\<close> is the split of the output lines with the suffix
  starting at the last line that is not ignorable. \<open>sampleFile\<close> holds the lines of
  \<^verbatim>\<open>testdata/read/read.ct\<close> as \<^verbatim>\<open>TestRead\<close> expects them to be parsed; \<open>hiCase\<close> is an open
  case with the output lines \<^verbatim>\<open>hi\<close> and an empty line.
\<close>

definition ignorable :: "string \<Rightarrow> bool" where
  "ignorable l = (l = [] \<or> hd l = CHR ''#'')"

definition isCommandLine :: "string \<Rightarrow> bool" where
  "isCommandLine l = HasPrefix l ''$''"

fun canonFrom :: "bool \<Rightarrow> string list \<Rightarrow> string list" where
  "canonFrom seen [] = []"
| "canonFrom seen (l # ls) =
     (if isCommandLine l then (''$ '' @ TrimSpace (drop 1 l)) # canonFrom True ls
      else (if seen then l else TrimSpace l) # canonFrom seen ls)"

definition unlines :: "string list \<Rightarrow> string" where
  "unlines ls = concat (map (\<lambda>l. l @ [CHR 0x0A]) ls)"

definition caseLines :: "testCase \<Rightarrow> string list" where
  "caseLines tc =
     before tc @ map (\<lambda>c. ''$ '' @ c) (commands tc)
       @ (case gotOutput tc of None \<Rightarrow> wantOutput tc | Some out \<Rightarrow> out)"

definition fileLines :: "testFile \<Rightarrow> string list" where
  "fileLines tf = concat (map caseLines (cases tf)) @ suffixLines tf"

definition pendingLines :: "locals \<Rightarrow> string list" where
  "pendingLines v =
     concat (map caseLines (cases (l_tf v)))
       @ (case l_tc v of None \<Rightarrow> l_prefix v | Some tc \<Rightarrow> caseLines tc)"

definition goodCase :: "testCase \<Rightarrow> bool" where
  "goodCase tc = (gotOutput tc = None \<and> commands tc \<noteq> [])"

definition inv :: "locals \<Rightarrow> bool" where
  "inv v =
     ((case l_state v of
         beforeFirstCommand \<Rightarrow> l_tc v = None \<and> cases (l_tf v) = []
       | inCommands \<Rightarrow> (case l_tc v of None \<Rightarrow> False | Some tc \<Rightarrow> wantOutput tc = [])
       | inOutput \<Rightarrow> l_tc v \<noteq> None)
      \<and> list_all goodCase (cases (l_tf v))
      \<and> (case l_tc v of None \<Rightarrow> True | Some tc \<Rightarrow> goodCase tc))"

definition roundTrip :: "string \<Rightarrow> string \<Rightarrow> string option" where
  "roundTrip name content =
     (case readFile name content of
        Ok tf \<Rightarrow> (case tf_write bufferWrite [] tf of (None, buf) \<Rightarrow> Some buf | _ \<Rightarrow> None)
      | _ \<Rightarrow> None)"

definition splitAsStated :: "string list \<Rightarrow> string list \<times> string list" where
  "splitAsStated out =
     (case filter (\<lambda>i. \<not> ignorable (out ! i)) (rev [0..<length out]) of
        [] \<Rightarrow> ([], out)
      | i # _ \<Rightarrow> (take i out, drop i out))"

definition sampleFile :: "string list" where
  "sampleFile =
     [''# A sample test file.'', '''', ''#   Prefix stuff.'', '''',
      ''$ command arg1 arg2'', ''$ cmd2'', ''out1'', ''out2'', '''',
      ''# start of the next case'', ''$ c3'', '''', ''# start of the third'', '''',
      ''$ c4 --> FAIL'', ''out3'', '''', ''$ c5 --> FAIL 2'', ''out4'', '''', '''', ''# end'']"

definition emptyFile :: testFile where
  "emptyFile = \<lparr>filename = ''x.ct'', cases = [], suffixLines = []\<rparr>"

definition hiCase :: testCase where
  "hiCase = \<lparr>before = [], startLine = 1, commands = [''echo hi''], gotOutput = None,
     wantOutput = [''hi'', '''']\<rparr>"

subsection \<open>Executing a test case\<close>

text \<open>
  The state of the process and of the operating system (environment variables, working
  directory, files) is a value of an arbitrary type \<open>'w\<close>. A \<^verbatim>\<open>CommandFunc\<close> takes the
  arguments, the input file and the state, and returns its output, its error (\<open>None\<close>
  for \<^verbatim>\<open>nil\<close>) and the new state. The functions of package \<^verbatim>\<open>os\<close> that the package calls
  are the fields of a record \<open>'w Sys\<close>; \<^verbatim>\<open>copyTestFiles\<close>, which only copies files, is one
  of them. Logging through \<^verbatim>\<open>t.Logf\<close> and the message printed for \<^verbatim>\<open>KeepRootDirs\<close> are
  not modelled, and a command function is taken not to panic.
\<close>

type_synonym 'w CommandFunc = "string list \<Rightarrow> string \<Rightarrow> 'w \<Rightarrow> (string \<times> error option) \<times> 'w"

record 'w Sys =
  LookupEnv :: "string \<Rightarrow> 'w \<Rightarrow> string option"
  TempDir :: "'w \<Rightarrow> (error + string) \<times> 'w"
  RemoveAll :: "string \<Rightarrow> 'w \<Rightarrow> 'w"
  Setenv :: "string \<Rightarrow> string \<Rightarrow> 'w \<Rightarrow> error option \<times> 'w"
  Unsetenv :: "string \<Rightarrow> 'w \<Rightarrow> 'w"
  Getwd :: "'w \<Rightarrow> error + string"
  Stat :: "string \<Rightarrow> 'w \<Rightarrow> error option"
  Chdir :: "string \<Rightarrow> 'w \<Rightarrow> error option \<times> 'w"
  copyTestFiles :: "string \<Rightarrow> string \<Rightarrow> 'w \<Rightarrow> error option \<times> 'w"

record 'w TestSuite =
  Setup :: "(string \<Rightarrow> 'w \<Rightarrow> error option \<times> 'w) option"
  Commands :: "string \<Rightarrow> 'w CommandFunc option"
  KeepRootDirs :: bool
  DisableLogging :: bool
  files :: "testFile list"

definition Getenv :: "'w Sys \<Rightarrow> string \<Rightarrow> 'w \<Rightarrow> string" where
  "Getenv sys key w = (case LookupEnv sys key w of None \<Rightarrow> [] | Some v \<Rightarrow> v)"

text \<open>
  \<^verbatim>\<open>strings.Fields\<close>: the maximal runs of runes that are not white space. \<open>cur\<close> holds the
  bytes of the field that is being read.
\<close>

function fieldsFrom :: "string \<Rightarrow> string \<Rightarrow> string list" where
  "fieldsFrom cur s =
     (if s = [] then (if cur = [] then [] else [cur])
      else
        (case leadingSpace s of
           0 \<Rightarrow> fieldsFrom (cur @ [hd s]) (tl s)
         | Suc k \<Rightarrow>
             (if cur = [] then fieldsFrom [] (drop (Suc k) s)
              else cur # fieldsFrom [] (drop (Suc k) s))))"
  by pat_completeness auto
termination
proof (relation "measure (\<lambda>(cur, s). length s)")
  show "wf (measure (\<lambda>(cur, s). length s))" by simp
next
  fix cur s :: string
  assume "s \<noteq> []"
  then show "((cur @ [hd s], tl s), cur, s) \<in> measure (\<lambda>(cur, s). length s)" by simp
next
  fix cur s :: string and k
  assume "s \<noteq> []"
  then show "(([], drop (Suc k) s), cur, s) \<in> measure (\<lambda>(cur, s). length s)" by simp
next
  fix cur s :: string and k
  assume "s \<noteq> []"
  then show "(([], drop (Suc k) s), cur, s) \<in> measure (\<lambda>(cur, s). length s)" by simp
qed

definition Fields :: "string \<Rightarrow> string list" where
  "Fields s = fieldsFrom [] s"

text \<open>\<^verbatim>\<open>strings.Split(s, "\n")\<close>: the pieces between newlines, at least one.\<close>

fun splitFrom :: "string \<Rightarrow> string \<Rightarrow> string list" where
  "splitFrom cur [] = [cur]"
| "splitFrom cur (c # cs) =
     (if c = CHR 0x0A then cur # splitFrom [] cs else splitFrom (cur @ [c]) cs)"

definition SplitNewline :: "string \<Rightarrow> string list" where
  "SplitNewline s = splitFrom [] s"

definition TrimRight :: "string \<Rightarrow> string \<Rightarrow> string" where
  "TrimRight s cutset = rev (dropWhile (\<lambda>c. c \<in> set cutset) (rev s))"

text \<open>
  \<^verbatim>\<open>utf8.DecodeRune\<close>, as far as the width of the rune goes: \<open>runeWidth s\<close> is the number
  of bytes of the rune at the start of \<open>s\<close>. The first byte gives the size of the encoding
  and the range of the second byte; every further byte has to be a continuation byte. A
  byte that does not start a valid encoding is a rune of width 1. \<open>runes\<close> cuts a string
  into the byte sequences of its runes.
\<close>

definition between :: "char \<Rightarrow> nat \<Rightarrow> nat \<Rightarrow> bool" where
  "between c lo hi = (lo \<le> (of_char c :: nat) \<and> (of_char c :: nat) \<le> hi)"

definition runeWidth :: "string \<Rightarrow> nat" where
  "runeWidth s =
     (case s of
        [] \<Rightarrow> 0
      | s0 # rest \<Rightarrow>
          (let (sz, lo, hi) =
                 (if between s0 0xC2 0xDF then (2 :: nat, 0x80 :: nat, 0xBF :: nat)
                  else if between s0 0xE0 0xE0 then (3, 0xA0, 0xBF)
                  else if between s0 0xE1 0xEC \<or> between s0 0xEE 0xEF then (3, 0x80, 0xBF)
                  else if between s0 0xED 0xED then (3, 0x80, 0x9F)
                  else if between s0 0xF0 0xF0 then (4, 0x90, 0xBF)
                  else if between s0 0xF1 0xF3 then (4, 0x80, 0xBF)
                  else if between s0 0xF4 0xF4 then (4, 0x80, 0x8F)
                  else (1, 0, 0))
           in if sz = 1 then 1
              else if length s < sz then 1
              else if \<not> between (s ! 1) lo hi then 1
              else if sz = 2 then 2
              else if \<not> between (s ! 2) 0x80 0xBF then 1
              else if sz = 3 then 3
              else if \<not> between (s ! 3) 0x80 0xBF then 1
              else 4))"

lemma runeWidth_pos: "s \<noteq> [] \<Longrightarrow> 0 < runeWidth s"
  by (cases s) (auto simp: runeWidth_def Let_def split: prod.splits if_splits)

function runes :: "string \<Rightarrow> string list" where
  "runes s = (if s = [] then [] else take (runeWidth s) s # runes (drop (runeWidth s) s))"
  by pat_completeness auto
termination
proof (relation "measure length")
  show "wf (measure length)" by simp
next
  fix s :: string
  assume "s \<noteq> []"
  with runeWidth_pos [of s] show "(drop (runeWidth s) s, s) \<in> measure length" by simp
qed

text \<open>
  \<^verbatim>\<open>bytes.Replace(b, old, new, -1)\<close> is \<open>ReplaceAll\<close> and \<^verbatim>\<open>strings.Replace(s, old, new, 1)\<close>
  is \<open>ReplaceFirst\<close>: occurrences are taken from the left and do not overlap. In
  \<open>replaceFrom k\<close> the next \<open>k\<close> bytes belong to an occurrence already replaced. An empty
  \<open>old\<close> matches at the beginning and after every rune.
\<close>

fun replaceFrom :: "nat \<Rightarrow> string \<Rightarrow> string \<Rightarrow> string \<Rightarrow> string" where
  "replaceFrom k [] old new = []"
| "replaceFrom k (c # cs) old new =
     (if k > 0 then replaceFrom (k - 1) cs old new
      else if HasPrefix (c # cs) old then new @ replaceFrom (length old - 1) cs old new
      else c # replaceFrom 0 cs old new)"

definition ReplaceAll :: "string \<Rightarrow> string \<Rightarrow> string \<Rightarrow> string" where
  "ReplaceAll b old new =
     (if old = [] then new @ concat (map (\<lambda>r. r @ new) (runes b))
      else replaceFrom 0 b old new)"

fun ReplaceFirst :: "string \<Rightarrow> string \<Rightarrow> string \<Rightarrow> string" where
  "ReplaceFirst [] old new = (if old = [] then new else [])"
| "ReplaceFirst (c # cs) old new =
     (if HasPrefix (c # cs) old then new @ drop (length old) (c # cs)
      else c # ReplaceFirst cs old new)"

definition Separator :: string where
  "Separator = ''/''"

definition scrub :: "string \<Rightarrow> string \<Rightarrow> string" where
  "scrub rootDir b =
     (let scrubbedRootDir = ''${ROOTDIR}'';
          rootDirWithSeparator = rootDir @ Separator;
          scrubbedRootDirWithSeparator = scrubbedRootDir @ Separator;
          b1 = ReplaceAll b rootDirWithSeparator scrubbedRootDirWithSeparator
      in ReplaceAll b1 rootDir scrubbedRootDir)"

text \<open>
  \<^verbatim>\<open>errors.As\<close> looks at the error itself and then, depth first, at the errors it wraps;
  \<open>errorTree\<close> lists them in that order. The three targets of \<^verbatim>\<open>extractExitCode\<close> are
  the types \<^verbatim>\<open>syscall.Errno\<close>, \<^verbatim>\<open>*exec.ExitError\<close> and \<^verbatim>\<open>*ExitCodeErr\<close>.
\<close>

fun errorTree :: "error \<Rightarrow> error list" where
  "errorTree (WrapError msg err) = WrapError msg err # errorTree err"
| "errorTree (JoinError errs) = JoinError errs # concat (map errorTree errs)"
| "errorTree err = [err]"

definition errorsAs :: "(error \<Rightarrow> 'a option) \<Rightarrow> error \<Rightarrow> 'a option" where
  "errorsAs target err =
     (case List.map_filter target (errorTree err) of [] \<Rightarrow> None | x # _ \<Rightarrow> Some x)"

definition asErrno :: "error \<Rightarrow> nat option" where
  "asErrno err = (case err of Errno n \<Rightarrow> Some n | _ \<Rightarrow> None)"

definition asExitError :: "error \<Rightarrow> int option" where
  "asExitError err = (case err of ExitError code \<Rightarrow> Some code | _ \<Rightarrow> None)"

definition asExitCodeErr :: "error \<Rightarrow> int option" where
  "asExitCodeErr err = (case err of ExitCodeErr msg code \<Rightarrow> Some code | _ \<Rightarrow> None)"

definition extractExitCode :: "error \<Rightarrow> int \<times> bool" where
  "extractExitCode err =
     (case errorsAs asErrno err of
        Some errno \<Rightarrow> (int errno, True)
      | None \<Rightarrow>
          (case errorsAs asExitError err of
             Some code \<Rightarrow> (code, True)
           | None \<Rightarrow>
               (case errorsAs asExitCodeErr err of
                  Some code \<Rightarrow> (code, True)
                | None \<Rightarrow> (0, False))))"

text \<open>
  The body of the loop of \<^verbatim>\<open>testCase.execute\<close>, in three parts. \<open>expandArgs\<close> expands the
  variables of the words one after the other. \<open>prepareCommand\<close> is the part before the
  command is looked up: it returns the command without its fail marker, \<open>wantFail\<close>,
  \<open>wantExitCode\<close>, the name of the command, its arguments and the input file. Taking the
  name, \<^verbatim>\<open>args[0]\<close>, panics when there is no word. \<open>checkResult\<close> is the part after the
  command has run: it compares the error of the command with what the line expects.
\<close>

fun expandArgs :: "(string \<Rightarrow> string option) \<Rightarrow> string list \<Rightarrow> error + string list" where
  "expandArgs lookup [] = Inr []"
| "expandArgs lookup (a # as) =
     (case expandVariables a lookup of
        Inl err \<Rightarrow> Inl err
      | Inr a' \<Rightarrow>
          (case expandArgs lookup as of
             Inl err \<Rightarrow> Inl err
           | Inr as' \<Rightarrow> Inr (a' # as')))"

definition prepareCommand ::
  "(string \<Rightarrow> string option) \<Rightarrow> string
     \<Rightarrow> (string \<times> bool \<times> int \<times> string \<times> string list \<times> string) result" where
  "prepareCommand lookup cmd0 =
     (case parseCommand cmd0 of
        Inl err \<Rightarrow> Error err
      | Inr (cmd, wantFail, wantExitCode) \<Rightarrow>
          (case expandArgs lookup (Fields cmd) of
             Inl err \<Rightarrow> Error err
           | Inr args0 \<Rightarrow>
               (case args0 of
                  [] \<Rightarrow> Panic ''index out of range [0] with length 0''
                | name # args \<Rightarrow>
                    if length args \<ge> 2 \<and> args ! (length args - 2) = ''<''
                    then Ok (cmd, wantFail, wantExitCode, name,
                             take (length args - 2) args, args ! (length args - 1))
                    else Ok (cmd, wantFail, wantExitCode, name, args, []))))"

definition checkResult :: "int \<Rightarrow> string \<Rightarrow> bool \<Rightarrow> int \<Rightarrow> error option \<Rightarrow> error option" where
  "checkResult line cmd wantFail wantExitCode res =
     (case res of
        None \<Rightarrow> if wantFail then Some (ErrSucceeded line cmd) else None
      | Some err \<Rightarrow>
          if \<not> wantFail then Some (ErrFailedWith line cmd err)
          else if wantExitCode \<noteq> 0
          then (case extractExitCode err of
                  (gotExitCode, ok) \<Rightarrow>
                    if \<not> ok then Some (ErrNoExitCode line cmd)
                    else if gotExitCode \<noteq> wantExitCode
                    then Some (ErrExitCode line cmd gotExitCode wantExitCode)
                    else None)
          else None)"

text \<open>
  The loop over the commands of a case: \<open>i\<close> is the index of the first of the commands
  still to run and \<open>allout\<close> the output collected so far.
\<close>

fun runCommands ::
  "'w Sys \<Rightarrow> ('w, 'a) TestSuite_scheme \<Rightarrow> int \<Rightarrow> int \<Rightarrow> string list \<Rightarrow> string \<Rightarrow> 'w
     \<Rightarrow> string result \<times> 'w" where
  "runCommands sys ts start i [] allout w = (Ok allout, w)"
| "runCommands sys ts start i (cmd0 # rest) allout w =
     (case prepareCommand (\<lambda>name. LookupEnv sys name w) cmd0 of
        Error err \<Rightarrow> (Error err, w)
      | Panic msg \<Rightarrow> (Panic msg, w)
      | Ok (cmd, wantFail, wantExitCode, name, args, infile) \<Rightarrow>
          (case Commands ts name of
             None \<Rightarrow> (Error (ErrNoSuchCommand (start + i) name), w)
           | Some f \<Rightarrow>
               (case f args infile w of
                  ((out, res), w') \<Rightarrow>
                    (case checkResult (start + i) cmd wantFail wantExitCode res of
                       Some err \<Rightarrow> (Error err, w')
                     | None \<Rightarrow> runCommands sys ts start (i + 1) rest (allout @ out) w'))))"

definition tc_execute ::
  "'w Sys \<Rightarrow> ('w, 'a) TestSuite_scheme \<Rightarrow> bool \<Rightarrow> testCase \<Rightarrow> 'w
     \<Rightarrow> unit result \<times> testCase \<times> 'w" where
  "tc_execute sys ts par tc0 w =
     (let tc = tc0\<lparr>gotOutput := None\<rparr>
      in case runCommands sys ts (startLine tc) 0 (commands tc) [] w of
           (Error err, w') \<Rightarrow> (Error err, tc, w')
         | (Panic msg, w') \<Rightarrow> (Panic msg, tc, w')
         | (Ok allout, w') \<Rightarrow>
             if length allout > 0
             then (let allout' = (if \<not> par then scrub (Getenv sys ''ROOTDIR'' w') allout
                                  else allout);
                       s = TrimRight allout' [CHR 0x20, CHR 0x09, CHR 0x0A]
                   in (Ok (), tc\<lparr>gotOutput := Some (SplitNewline s)\<rparr>, w'))
             else (Ok (), tc, w'))"

subsection \<open>Executing and comparing a test file\<close>

fun executeCases ::
  "'w Sys \<Rightarrow> ('w, 'a) TestSuite_scheme \<Rightarrow> bool \<Rightarrow> string \<Rightarrow> testCase list \<Rightarrow> 'w
     \<Rightarrow> unit result \<times> testCase list \<times> 'w" where
  "executeCases sys ts par name [] w = (Ok (), [], w)"
| "executeCases sys ts par name (tc # tcs) w =
     (case tc_execute sys ts par tc w of
        (Error err, tc', w') \<Rightarrow> (Error (ErrInFile name '':'' err), tc' # tcs, w')
      | (Panic msg, tc', w') \<Rightarrow> (Panic msg, tc' # tcs, w')
      | (Ok u, tc', w') \<Rightarrow>
          (case executeCases sys ts par name tcs w' of
             (r, tcs', w'') \<Rightarrow> (r, tc' # tcs', w'')))"

text \<open>
  \<open>setupAndRun\<close> is the end of \<^verbatim>\<open>testFile.execute\<close>: the call of \<^verbatim>\<open>Setup\<close> and the loop
  over the cases. \<open>tf_execute\<close> wraps it in the temporary root directory when the run is
  not parallel (\<open>par\<close> is \<^verbatim>\<open>parallel\<close>); the deferred calls run in reverse order on every way out.
\<close>

definition setupAndRun ::
  "'w Sys \<Rightarrow> ('w, 'a) TestSuite_scheme \<Rightarrow> bool \<Rightarrow> string \<Rightarrow> testFile \<Rightarrow> 'w
     \<Rightarrow> unit result \<times> testFile \<times> 'w" where
  "setupAndRun sys ts par rootDir tf w =
     (case (case Setup ts of None \<Rightarrow> (None, w) | Some setup \<Rightarrow> setup rootDir w) of
        (Some err, w1) \<Rightarrow> (Error (ErrInFile (filename tf) '': calling Setup: '' err), tf, w1)
      | (None, w1) \<Rightarrow>
          (case executeCases sys ts par (filename tf) (cases tf) w1 of
             (r, tcs', w2) \<Rightarrow> (r, tf\<lparr>cases := tcs'\<rparr>, w2)))"

definition tf_execute ::
  "'w Sys \<Rightarrow> ('w, 'a) TestSuite_scheme \<Rightarrow> bool \<Rightarrow> testFile \<Rightarrow> 'w
     \<Rightarrow> unit result \<times> testFile \<times> 'w" where
  "tf_execute sys ts par tf w =
     (if par then setupAndRun sys ts par [] tf w
      else
        (case TempDir sys w of
           (Inl err, w1) \<Rightarrow> (Error (ErrInFile (filename tf) '': '' err), tf, w1)
         | (Inr rootDir, w1) \<Rightarrow>
             (let defer1 = (\<lambda>w. if KeepRootDirs ts then w else RemoveAll sys rootDir w)
              in case Setenv sys ''ROOTDIR'' rootDir w1 of
                   (Some err, w2) \<Rightarrow> (Error (ErrInFile (filename tf) '': '' err), tf, defer1 w2)
                 | (None, w2) \<Rightarrow>
                     (let defer2 = (\<lambda>w. defer1 (Unsetenv sys ''ROOTDIR'' w))
                      in case Getwd sys w2 of
                           Inl err \<Rightarrow>
                             (Error (ErrInFile (filename tf) '': '' err), tf, defer2 w2)
                         | Inr cwd \<Rightarrow>
                             (let testFilesDir = ReplaceFirst (filename tf) ''.ct'' ''_tf''
                              in case (case Stat sys testFilesDir w2 of
                                         None \<Rightarrow> copyTestFiles sys rootDir testFilesDir w2
                                       | Some err \<Rightarrow> (None, w2)) of
                                   (Some err, w3) \<Rightarrow>
                                     (Error (ErrInFile (filename tf)
                                        '': copying test files: '' err), tf, defer2 w3)
                                 | (None, w3) \<Rightarrow>
                                     (case Chdir sys rootDir w3 of
                                        (Some err, w4) \<Rightarrow>
                                          (Error (ErrInFile (filename tf) '': '' err), tf,
                                           defer2 w4)
                                      | (None, w4) \<Rightarrow>
                                          (let defer3 = (\<lambda>w. defer2 (snd (Chdir sys cwd w)))
                                           in case setupAndRun sys ts par rootDir tf w4 of
                                                (r, tf', w5) \<Rightarrow> (r, tf', defer3 w5))))))))"

text \<open>
  \<^verbatim>\<open>testFile.compare\<close> returns a text: the error of the execution, or a paragraph for
  every case whose output differs (\<^verbatim>\<open>cmp.Diff\<close> tells a nil slice from an empty one). The
  model returns what the text is made from; the text is empty for \<open>Diffs []\<close> only.
\<close>

datatype report = ExecError error | Diffs "testCase list"

definition sameOutput :: "testCase \<Rightarrow> bool" where
  "sameOutput c =
     (case gotOutput c of
        None \<Rightarrow> wantOutput c = []
      | Some got \<Rightarrow> wantOutput c \<noteq> [] \<and> got = wantOutput c)"

definition tf_compare ::
  "'w Sys \<Rightarrow> ('w, 'a) TestSuite_scheme \<Rightarrow> bool \<Rightarrow> testFile \<Rightarrow> 'w
     \<Rightarrow> report result \<times> testFile \<times> 'w" where
  "tf_compare sys ts par tf w =
     (case tf_execute sys ts par tf w of
        (Error err, tf', w') \<Rightarrow> (Ok (ExecError err), tf', w')
      | (Panic msg, tf', w') \<Rightarrow> (Panic msg, tf', w')
      | (Ok u, tf', w') \<Rightarrow> (Ok (Diffs (filter (\<lambda>c. \<not> sameOutput c) (cases tf'))), tf', w'))"

text \<open>
  \<^verbatim>\<open>TestSuite.compare\<close> runs one subtest for each file, in the order of \<open>files\<close>; each
  subtest reports its text with \<^verbatim>\<open>t.Error\<close>, which does not stop anything. The result
  lists the reports of the files that ran. A panic ends the test binary, so no further
  file runs. With \<open>par\<close> (\<^verbatim>\<open>parallel\<close>) the subtests of the Go program may run at the same time;
  the model runs them one after the other.
\<close>

fun compareFiles ::
  "'w Sys \<Rightarrow> ('w, 'a) TestSuite_scheme \<Rightarrow> bool \<Rightarrow> testFile list \<Rightarrow> 'w
     \<Rightarrow> report result list \<times> testFile list \<times> 'w" where
  "compareFiles sys ts par [] w = ([], [], w)"
| "compareFiles sys ts par (tf # tfs) w =
     (case tf_compare sys ts par tf w of
        (Panic msg, tf', w') \<Rightarrow> ([Panic msg], tf' # tfs, w')
      | (r, tf', w') \<Rightarrow>
          (case compareFiles sys ts par tfs w' of
             (rs, tfs', w'') \<Rightarrow> (r # rs, tf' # tfs', w'')))"

definition ts_compare ::
  "'w Sys \<Rightarrow> 'w TestSuite \<Rightarrow> bool \<Rightarrow> 'w \<Rightarrow> report result list \<times> 'w TestSuite \<times> 'w" where
  "ts_compare sys ts par w =
     (case compareFiles sys ts par (files ts) w of
        (rs, tfs', w') \<Rightarrow> (rs, ts\<lparr>files := tfs'\<rparr>, w'))"

definition extractExitCodeAsStated :: "error \<Rightarrow> int \<times> bool" where
  "extractExitCodeAsStated err =
     (case errorsAs asExitError err of
        Some code \<Rightarrow> (code, True)
      | None \<Rightarrow>
          (case errorsAs asErrno err of
             Some errno \<Rightarrow> (int errno, True)
           | None \<Rightarrow>
               (case errorsAs asExitCodeErr err of
                  Some code \<Rightarrow> (code, True)
                | None \<Rightarrow> (0, False))))"

definition testSys :: "string list Sys" where
  "testSys =
     \<lparr>LookupEnv = (\<lambda>key w. if key = ''ROOTDIR'' then Some ''/tmp/cmdtest1'' else None),
      TempDir = (\<lambda>w. (Inr ''/tmp/cmdtest1'', w)),
      RemoveAll = (\<lambda>dir w. w),
      Setenv = (\<lambda>key v w. (None, w)),
      Unsetenv = (\<lambda>key w. w),
      Getwd = (\<lambda>w. Inr ''/home''),
      Stat = (\<lambda>path w. Some (Errno 2)),
      Chdir = (\<lambda>dir w. (None, w)),
      copyTestFiles = (\<lambda>tmpDir dir w. (None, w))\<rparr>"

definition testCommands :: "string \<Rightarrow> string list CommandFunc option" where
  "testCommands name =
     (if name = ''say''
      then Some (\<lambda>args infile w. ((concat args @ [CHR 0x0A], None), w @ [''say'' @ concat args]))
      else if name = ''code17''
      then Some (\<lambda>args infile w.
             (([], Some (WrapError ''wrapping: '' (ExitCodeErr ''failed'' 17))), w @ [''code17'']))
      else None)"

definition testSuite :: "string list TestSuite" where
  "testSuite = \<lparr>Setup = None, Commands = testCommands, KeepRootDirs = False,
     DisableLogging = True, files = []\<rparr>"

definition mkCase :: "int \<Rightarrow> string list \<Rightarrow> string list \<Rightarrow> testCase" where
  "mkCase line cmds want =
     \<lparr>before = [], startLine = line, commands = cmds, gotOutput = None, wantOutput = want\<rparr>"

definition notPanic :: "'a result \<Rightarrow> bool" where
  "notPanic r = (case r of Panic msg \<Rightarrow> False | _ \<Rightarrow> True)"

definition fileA :: testFile where
  "fileA = \<lparr>filename = ''a.ct'',
     cases = [mkCase 1 [''say a''] [''a''], mkCase 3 [''code17''] [], mkCase 5 [''say b''] [''b'']],
     suffixLines = []\<rparr>"

definition fileB :: testFile where
  "fileB = \<lparr>filename = ''b.ct'', cases = [mkCase 1 [''say c''] [''x'']], suffixLines = []\<rparr>"

definition code17Error :: error where
  "code17Error = WrapError ''wrapping: '' (ExitCodeErr ''failed'' 17)"

subsection \<open>Update mode\<close>

text \<open>
  For update mode the state has a file system: \<open>fsFiles\<close> maps a path to the content of
  the file there, and \<open>fsWrites\<close> counts the writes to the temporary file. The system
  calls on the temporary file can fail; which of them do is given by a record
  \<open>faults\<close>: an error for creating, syncing, closing, renaming and removing, and for
  writing the index of the write that fails, the number of bytes it still writes, and
  its error. A call that fails changes nothing, except that a failing write may have
  written part of its data; a rename that succeeds replaces the target in one step.
  \<open>createTempFile\<close> gets the name \<open>tmp\<close> that \<^verbatim>\<open>ioutil.TempFile\<close> picks; creating fails if
  a file of that name exists.
\<close>

record fsys =
  fsFiles :: "string \<Rightarrow> string option"
  fsWrites :: nat

record faults =
  createErr :: "error option"
  writeFault :: "(nat \<times> nat \<times> error) option"
  syncErr :: "error option"
  closeErr :: "error option"
  renameErr :: "error option"
  removeErr :: "error option"

text \<open>\<^verbatim>\<open>simpleTempFile\<close>: \<open>t_name\<close> is \<^verbatim>\<open>t.Name()\<close>, the other fields are those of the struct.\<close>

record tempFile =
  t_name :: string
  t_path :: string
  t_closed :: bool
  t_done :: bool

definition createTempFile ::
  "faults \<Rightarrow> string \<Rightarrow> string \<Rightarrow> 'z fsys_scheme \<Rightarrow> (error + tempFile) \<times> 'z fsys_scheme" where
  "createTempFile fl tmp name w =
     (case createErr fl of
        Some err \<Rightarrow> (Inl err, w)
      | None \<Rightarrow>
          if fsFiles w tmp \<noteq> None then (Inl (ErrorString ''file exists''), w)
          else (Inr \<lparr>t_name = tmp, t_path = name, t_closed = False, t_done = False\<rparr>,
                w\<lparr>fsFiles := (fsFiles w)(tmp \<mapsto> []), fsWrites := 0\<rparr>))"

definition contentOf :: "'z fsys_scheme \<Rightarrow> string \<Rightarrow> string" where
  "contentOf w p = (case fsFiles w p of None \<Rightarrow> [] | Some c \<Rightarrow> c)"

definition tempWrite :: "faults \<Rightarrow> tempFile \<Rightarrow> 'z fsys_scheme writer" where
  "tempWrite fl t w data =
     (let k = fsWrites w;
          w' = w\<lparr>fsWrites := k + 1\<rparr>
      in case writeFault fl of
           None \<Rightarrow> (None, w'\<lparr>fsFiles := (fsFiles w)(t_name t \<mapsto> contentOf w (t_name t) @ data)\<rparr>)
         | Some (k0, n, err) \<Rightarrow>
             if k = k0
             then (Some err,
                   w'\<lparr>fsFiles := (fsFiles w)(t_name t \<mapsto> contentOf w (t_name t) @ take n data)\<rparr>)
             else (None,
                   w'\<lparr>fsFiles := (fsFiles w)(t_name t \<mapsto> contentOf w (t_name t) @ data)\<rparr>))"

definition Remove :: "faults \<Rightarrow> string \<Rightarrow> 'z fsys_scheme \<Rightarrow> error option \<times> 'z fsys_scheme" where
  "Remove fl p w =
     (case removeErr fl of
        Some err \<Rightarrow> (Some err, w)
      | None \<Rightarrow> (None, w\<lparr>fsFiles := (fsFiles w)(p := None)\<rparr>))"

definition Rename ::
  "faults \<Rightarrow> string \<Rightarrow> string \<Rightarrow> 'z fsys_scheme \<Rightarrow> error option \<times> 'z fsys_scheme" where
  "Rename fl old new w =
     (case renameErr fl of
        Some err \<Rightarrow> (Some err, w)
      | None \<Rightarrow> (None, w\<lparr>fsFiles := (fsFiles w)(old := None, new := fsFiles w old)\<rparr>))"

definition Cleanup ::
  "faults \<Rightarrow> tempFile \<Rightarrow> 'z fsys_scheme \<Rightarrow> error option \<times> 'z fsys_scheme" where
  "Cleanup fl t w =
     (if t_done t then (None, w)
      else
        (let closeError = (if \<not> t_closed t then closeErr fl else None)
         in case Remove fl (t_name t) w of
              (Some err, w') \<Rightarrow> (Some err, w')
            | (None, w') \<Rightarrow> (closeError, w')))"

definition CloseAtomicallyReplace ::
  "faults \<Rightarrow> tempFile \<Rightarrow> 'z fsys_scheme \<Rightarrow> error option \<times> tempFile \<times> 'z fsys_scheme" where
  "CloseAtomicallyReplace fl t w =
     (case syncErr fl of
        Some err \<Rightarrow> (Some err, t, w)
      | None \<Rightarrow>
          (let t1 = t\<lparr>t_closed := True\<rparr>
           in case closeErr fl of
                Some err \<Rightarrow> (Some err, t1, w)
              | None \<Rightarrow>
                  (case Rename fl (t_name t1) (t_path t1) w of
                     (Some err, w') \<Rightarrow> (Some err, t1, w')
                   | (None, w') \<Rightarrow> (None, t1\<lparr>t_done := True\<rparr>, w'))))"

text \<open>
  \<open>updateToTemp\<close> returns the temporary file (\<open>None\<close> for \<^verbatim>\<open>nil\<close>) and the error.
  \<open>updateFile\<close> is the subtest that \<^verbatim>\<open>TestSuite.update\<close> runs for one file; its result
  lists the errors it reports with \<^verbatim>\<open>t.Fatal\<close>, the one of the deferred \<^verbatim>\<open>Cleanup\<close> last.
\<close>

definition updateToTemp ::
  "'z fsys_scheme Sys \<Rightarrow> ('z fsys_scheme, 'a) TestSuite_scheme \<Rightarrow> bool \<Rightarrow> faults \<Rightarrow> string
     \<Rightarrow> testFile \<Rightarrow> 'z fsys_scheme
     \<Rightarrow> (tempFile option \<times> error option) result \<times> testFile \<times> 'z fsys_scheme" where
  "updateToTemp sys ts par fl tmp tf w =
     (case tf_execute sys ts par tf w of
        (Panic msg, tf1, w1) \<Rightarrow> (Panic msg, tf1, w1)
      | (Error err, tf1, w1) \<Rightarrow> (Ok (None, Some err), tf1, w1)
      | (Ok u, tf1, w1) \<Rightarrow>
          (case createTempFile fl tmp (filename tf1) w1 of
             (Inl err, w2) \<Rightarrow> (Ok (None, Some err), tf1, w2)
           | (Inr f, w2) \<Rightarrow>
               (case tf_write (tempWrite fl f) w2 tf1 of
                  (Some err, w3) \<Rightarrow> (Ok (Some f, Some err), tf1, w3)
                | (None, w3) \<Rightarrow> (Ok (Some f, None), tf1, w3))))"

definition updateFile ::
  "'z fsys_scheme Sys \<Rightarrow> ('z fsys_scheme, 'a) TestSuite_scheme \<Rightarrow> bool \<Rightarrow> faults \<Rightarrow> string
     \<Rightarrow> testFile \<Rightarrow> 'z fsys_scheme
     \<Rightarrow> error list result \<times> testFile \<times> 'z fsys_scheme" where
  "updateFile sys ts par fl tmp tf w =
     (case updateToTemp sys ts par fl tmp tf w of
        (Panic msg, tf1, w1) \<Rightarrow> (Panic msg, tf1, w1)
      | (Error err, tf1, w1) \<Rightarrow> (Error err, tf1, w1)
      | (Ok (tmpfile, res), tf1, w1) \<Rightarrow>
          (case tmpfile of
             None \<Rightarrow>
               (case res of
                  Some err \<Rightarrow> (Ok [err], tf1, w1)
                | None \<Rightarrow> (Panic ''nil pointer dereference'', tf1, w1))
           | Some t \<Rightarrow>
               (case (case res of
                        Some err \<Rightarrow> ([err], t, w1)
                      | None \<Rightarrow>
                          (case CloseAtomicallyReplace fl t w1 of
                             (Some err, t', w2) \<Rightarrow> ([err], t', w2)
                           | (None, t', w2) \<Rightarrow> ([], t', w2))) of
                  (errs, t', w2) \<Rightarrow>
                    (case Cleanup fl t' w2 of
                       (Some err, w3) \<Rightarrow> (Ok (errs @ [err]), tf1, w3)
                     | (None, w3) \<Rightarrow> (Ok errs, tf1, w3)))))"

text \<open>
  Every function that writes a test file is a sequence of writes, which stops at the
  first one that fails. \<open>writeChunks\<close> is such a sequence, and the \<open>chunks\<close> functions
  give the data of the writes.
\<close>

fun writeChunks :: "'w writer \<Rightarrow> 'w \<Rightarrow> string list \<Rightarrow> error option \<times> 'w" where
  "writeChunks wr w [] = (None, w)"
| "writeChunks wr w (d # ds) =
     (case wr w d of
        (Some err, w') \<Rightarrow> (Some err, w')
      | (None, w') \<Rightarrow> writeChunks wr w' ds)"

definition lineChunks :: "string list \<Rightarrow> string list" where
  "lineChunks ls = concat (map (\<lambda>l. [l, [CHR 0x0A]]) ls)"

definition caseChunks :: "testCase \<Rightarrow> string list" where
  "caseChunks tc =
     lineChunks (before tc) @ map (\<lambda>c. ''$ '' @ c @ [CHR 0x0A]) (commands tc)
       @ lineChunks (case gotOutput tc of None \<Rightarrow> wantOutput tc | Some out \<Rightarrow> out)"

definition fileChunks :: "testFile \<Rightarrow> string list" where
  "fileChunks tf = concat (map caseChunks (cases tf)) @ lineChunks (suffixLines tf)"

definition noFaults :: faults where
  "noFaults = \<lparr>createErr = None, writeFault = None, syncErr = None, closeErr = None,
     renameErr = None, removeErr = None\<rparr>"

definition fsSys :: "fsys Sys" where
  "fsSys =
     \<lparr>LookupEnv = (\<lambda>key w. if key = ''ROOTDIR'' then Some ''/tmp/cmdtest1'' else None),
      TempDir = (\<lambda>w. (Inr ''/tmp/cmdtest1'', w)),
      RemoveAll = (\<lambda>dir w. w),
      Setenv = (\<lambda>key v w. (None, w)),
      Unsetenv = (\<lambda>key w. w),
      Getwd = (\<lambda>w. Inr ''/home''),
      Stat = (\<lambda>p w. Some (Errno 2)),
      Chdir = (\<lambda>dir w. (None, w)),
      copyTestFiles = (\<lambda>tmpDir dir w. (None, w))\<rparr>"

definition fsSuite :: "fsys TestSuite" where
  "fsSuite =
     \<lparr>Setup = None,
      Commands = (\<lambda>name. if name = ''say''
                   then Some (\<lambda>args infile w. ((concat args @ [CHR 0x0A], None), w))
                   else None),
      KeepRootDirs = False, DisableLogging = True, files = []\<rparr>"

definition goldenText :: string where
  "goldenText = ''$ say hi'' @ [CHR 0x0A] @ ''old'' @ [CHR 0x0A]"

definition goldenFile :: testFile where
  "goldenFile = \<lparr>filename = ''u.ct'', cases = [mkCase 1 [''say hi''] [''old'']], suffixLines = []\<rparr>"

definition disk :: fsys where
  "disk = \<lparr>fsFiles = (\<lambda>p. if p = ''u.ct'' then Some goldenText else None), fsWrites = 0\<rparr>"

section \<open>Properties\<close>

subsection \<open>The fail marker of a command line\<close>

lemma HasPrefix_sublist:
  "HasPrefix (drop i s) sep \<Longrightarrow> sublist sep s"
  unfolding HasPrefix_def sublist_def
  by (metis append_take_drop_id)

lemma LastIndex_absent:
  assumes "\<not> sublist sep s"
  shows "LastIndex s sep = - 1"
proof -
  have "\<not> HasPrefix (drop i s) sep" for i
    using assms HasPrefix_sublist by blast
  then have "filter (\<lambda>i. HasPrefix (drop i s) sep) (rev [0..<Suc (length s)]) = []"
    by (intro filter_False ballI)
  then show ?thesis by (simp add: LastIndex_def)
qed

lemma LastIndex_rightmost:
  assumes s: "s = pre @ sep @ post"
    and last: "\<not> sublist sep (tl (sep @ post))"
  shows "LastIndex s sep = int (length pre)"
proof -
  let ?P = "\<lambda>i. HasPrefix (drop i s) sep"
  let ?k = "length pre"
  define t where "t = sep @ post"
  have st: "s = pre @ t" by (simp add: s t_def)
  have k: "?P ?k" by (simp add: s HasPrefix_def)
  have later: "\<not> ?P i" if "?k < i" for i
  proof
    assume "?P i"
    then have "sublist sep (drop i s)" by (metis HasPrefix_sublist drop0)
    moreover have "drop i s = drop (i - ?k) t"
      using that by (simp add: st)
    moreover have "drop (i - ?k) t = drop (i - Suc ?k) (tl t)"
      using that by (metis Suc_diff_Suc drop_Suc)
    ultimately have "sublist sep (tl t)"
      by (metis sublist_drop sublist_order.order.trans)
    with last show False by (simp add: t_def)
  qed
  have le: "?k \<le> length s" by (simp add: s)
  have "[0..<Suc (length s)] = [0..<?k] @ [?k] @ [Suc ?k..<Suc (length s)]"
  proof -
    have "[0..<Suc (length s)] = [0..<?k] @ [?k..<Suc (length s)]"
      using le upt_add_eq_append [of 0 ?k "Suc (length s) - ?k"] by simp
    moreover have "[?k..<Suc (length s)] = ?k # [Suc ?k..<Suc (length s)]"
      using le by (simp add: upt_conv_Cons)
    ultimately show ?thesis by simp
  qed
  then have "filter ?P (rev [0..<Suc (length s)]) =
     filter ?P (rev [Suc ?k..<Suc (length s)]) @ [?k] @ filter ?P (rev [0..<?k])"
    using k by simp
  moreover have "filter ?P (rev [Suc ?k..<Suc (length s)]) = []"
  proof (intro filter_False ballI)
    fix x assume "x \<in> set (rev [Suc ?k..<Suc (length s)])"
    then have "?k < x" by auto
    then show "\<not> ?P x" by (rule later)
  qed
  ultimately show ?thesis by (simp add: LastIndex_def)
qed

text \<open>
  Claim C3. \<open>parseCommand\<close> looks for the rightmost occurrence of the marker
  \<^verbatim>\<open> --> FAIL\<close>. A line without the marker is returned whole, with \<open>wantFail = False\<close>
  and exit code 0 (none). For a line \<open>pre @ failMarker @ post\<close> in which the marker does
  not occur again further right (that is, not inside the text that follows its first
  character), the command is \<open>pre\<close> and \<open>wantFail = True\<close>; if the trimmed remainder is
  empty no exit code is required (0), otherwise it has to be accepted by \<open>Atoi\<close> with a
  value other than 0, which becomes \<open>wantExitCode\<close>; a remainder that \<open>Atoi\<close> rejects, or
  whose value is 0, makes \<open>parseCommand\<close> return an error.
\<close>

theorem parseCommand_marker:
  "(\<not> sublist failMarker cmdline \<longrightarrow> parseCommand cmdline = Inr (cmdline, False, 0)) \<and>
   (\<not> sublist failMarker (tl (failMarker @ post)) \<longrightarrow>
      parseCommand (pre @ failMarker @ post) =
        (if TrimSpace post = [] then Inr (pre, True, 0)
         else case Atoi (TrimSpace post) of
                Inl err \<Rightarrow> Inl err
              | Inr n \<Rightarrow> if n = 0 then Inl ErrZeroExitCode else Inr (pre, True, n)))"
proof (intro conjI impI)
  assume "\<not> sublist failMarker cmdline"
  then have "LastIndex cmdline failMarker = - 1" by (rule LastIndex_absent)
  then show "parseCommand cmdline = Inr (cmdline, False, 0)"
    by (simp add: parseCommand_def)
next
  assume "\<not> sublist failMarker (tl (failMarker @ post))"
  then have "LastIndex (pre @ failMarker @ post) failMarker = int (length pre)"
    by (rule LastIndex_rightmost [OF refl])
  then show "parseCommand (pre @ failMarker @ post) =
        (if TrimSpace post = [] then Inr (pre, True, 0)
         else case Atoi (TrimSpace post) of
                Inl err \<Rightarrow> Inl err
              | Inr n \<Rightarrow> if n = 0 then Inl ErrZeroExitCode else Inr (pre, True, n))"
    by (simp add: parseCommand_def Let_def)
qed

theorem parseCommand_marker_witness:
  "parseCommand ''a b c --> fail'' = Inr (''a b c --> fail'', False, 0) \<and>
   parseCommand (''a b c'' @ failMarker @ '' 23'') = Inr (''a b c'', True, 23) \<and>
   parseCommand (''a b c'' @ failMarker @ '' 0'') = Inl ErrZeroExitCode \<and>
   parseCommand (''a b c'' @ failMarker @ '' 23a'') = Inl (ErrSyntax ''23a'') \<and>
   parseCommand (''a b c'' @ failMarker @ ''   '') = Inr (''a b c'', True, 0)"
proof (intro conjI)
  have "\<not> sublist failMarker ''a b c --> fail''" by code_simp
  then show "parseCommand ''a b c --> fail'' = Inr (''a b c --> fail'', False, 0)"
    using parseCommand_marker [where cmdline = "''a b c --> fail''"] by blast
next
  have "\<not> sublist failMarker (tl (failMarker @ '' 23''))" by code_simp
  moreover have "TrimSpace '' 23'' = ''23''" "Atoi ''23'' = Inr 23" by code_simp+
  ultimately show "parseCommand (''a b c'' @ failMarker @ '' 23'') = Inr (''a b c'', True, 23)"
    using parseCommand_marker [where pre = "''a b c''" and post = "'' 23''"] by simp
next
  have "\<not> sublist failMarker (tl (failMarker @ '' 0''))" by code_simp
  moreover have "TrimSpace '' 0'' = ''0''" "Atoi ''0'' = Inr 0" by code_simp+
  ultimately show "parseCommand (''a b c'' @ failMarker @ '' 0'') = Inl ErrZeroExitCode"
    using parseCommand_marker [where pre = "''a b c''" and post = "'' 0''"] by simp
next
  have "\<not> sublist failMarker (tl (failMarker @ '' 23a''))" by code_simp
  moreover have "TrimSpace '' 23a'' = ''23a''" "Atoi ''23a'' = Inl (ErrSyntax ''23a'')"
    by code_simp+
  ultimately show "parseCommand (''a b c'' @ failMarker @ '' 23a'') = Inl (ErrSyntax ''23a'')"
    using parseCommand_marker [where pre = "''a b c''" and post = "'' 23a''"] by simp
next
  have "\<not> sublist failMarker (tl (failMarker @ ''   ''))" by code_simp
  moreover have "TrimSpace ''   '' = []" by code_simp
  ultimately show "parseCommand (''a b c'' @ failMarker @ ''   '') = Inr (''a b c'', True, 0)"
    using parseCommand_marker [where pre = "''a b c''" and post = "''   ''"] by simp
qed

subsection \<open>Variable expansion\<close>

lemma takeWhile_name:
  "list_all isNameChar n \<Longrightarrow> takeWhile isNameChar (n @ CHR ''}'' # t) = n"
  by (induction n) (simp_all add: isNameChar_def)

lemma matchAt_varRef:
  assumes "isName n"
  shows "matchAt (varRef n @ t) = Some (length n + 3)"
proof -
  have "varRef n @ t = CHR ''$'' # CHR ''{'' # (n @ CHR ''}'' # t)"
    by (simp add: varRef_def)
  moreover have "takeWhile isNameChar (n @ CHR ''}'' # t) = n"
    using assms by (simp add: isName_def takeWhile_name)
  ultimately show ?thesis
    using assms by (simp add: isName_def HasPrefix_def)
qed

lemma matchAt_Some:
  assumes "matchAt s = Some e"
  shows "\<exists>n t. isName n \<and> s = varRef n @ t \<and> e = length n + 3"
  using assms
proof (induction s rule: matchAt.induct)
  case (1 a b rest)
  let ?n = "takeWhile isNameChar rest"
  from 1 have ab: "a = CHR ''$''" "b = CHR ''{''" and n: "?n \<noteq> []"
    and p: "HasPrefix (drop (length ?n) rest) ''}''"
    and e: "e = length ?n + 3"
    by (auto simp: Let_def split: if_splits)
  from p obtain t where t: "drop (length ?n) rest = CHR ''}'' # t"
    by (cases "drop (length ?n) rest") (auto simp: HasPrefix_def)
  have "rest = ?n @ drop (length ?n) rest"
    by (metis takeWhile_dropWhile_id dropWhile_eq_drop)
  with t have "rest = ?n @ CHR ''}'' # t" by simp
  then have "a # b # rest = varRef ?n @ t" by (simp add: varRef_def ab)
  moreover have "isName ?n"
    using n by (simp add: isName_def list_all_iff) (meson set_takeWhileD)
  ultimately show ?case using e by blast
qed simp_all

lemma refAt_0: "refAt s 0 \<longleftrightarrow> matchAt s \<noteq> None"
proof
  assume "refAt s 0"
  then obtain n t where "isName n" "s = varRef n @ t"
    by (auto simp: refAt_def prefix_def)
  then show "matchAt s \<noteq> None" by (simp add: matchAt_varRef)
next
  assume "matchAt s \<noteq> None"
  then obtain e where "matchAt s = Some e" by auto
  from matchAt_Some [OF this] show "refAt s 0"
    by (auto simp: refAt_def)
qed

lemma refAt_Suc: "refAt (c # cs) (Suc i) \<longleftrightarrow> refAt cs i"
  by (simp add: refAt_def)

lemma refAt_Nil: "\<not> refAt [] i"
  by (simp add: refAt_def varRef_def)

lemma FindStringSubmatchIndex_None:
  "FindStringSubmatchIndex s = None \<longleftrightarrow> (\<forall>i. \<not> refAt s i)"
proof (induction s)
  case Nil
  show ?case by (simp add: refAt_Nil)
next
  case (Cons c cs)
  have "(\<forall>i. \<not> refAt (c # cs) i) \<longleftrightarrow> \<not> refAt (c # cs) 0 \<and> (\<forall>i. \<not> refAt cs i)"
    by (metis refAt_Suc not0_implies_Suc)
  then show ?case
    using Cons.IH by (auto simp: refAt_0 split: option.splits)
qed

lemma FindStringSubmatchIndex_leftmost:
  assumes "isName n" and "\<forall>i<length pre. \<not> refAt (pre @ varRef n @ post) i"
  shows "FindStringSubmatchIndex (pre @ varRef n @ post) =
           Some (length pre, length pre + length n + 3, length pre + 2, length pre + 2 + length n)"
  using assms(2)
proof (induction pre)
  case Nil
  have "matchAt (varRef n @ post) = Some (length n + 3)"
    using assms(1) by (rule matchAt_varRef)
  moreover have "varRef n @ post = CHR ''$'' # tl (varRef n @ post)"
    by (simp add: varRef_def)
  ultimately obtain c cs where t: "varRef n @ post = c # cs"
    and m: "matchAt (c # cs) = Some (length n + 3)"
    by metis
  have "FindStringSubmatchIndex (c # cs) = Some (0, length n + 3, 2, length n + 3 - 1)"
    by (simp only: FindStringSubmatchIndex.simps m option.case)
  then show ?case by (simp add: t)
next
  case (Cons p ps)
  from Cons.prems have "\<not> refAt (p # ps @ varRef n @ post) 0" by auto
  then have m: "matchAt (p # ps @ varRef n @ post) = None" by (simp add: refAt_0)
  have "\<forall>i<length ps. \<not> refAt (ps @ varRef n @ post) i"
    using Cons.prems refAt_Suc by (metis Suc_less_eq append_Cons length_Cons)
  from Cons.IH [OF this] m show ?case by simp
qed

lemma expandLoop_acc:
  "expandLoop lookup sb s =
     (case expandLoop lookup [] s of Inl e \<Rightarrow> Inl e | Inr r \<Rightarrow> Inr (sb @ r))"
proof (induction s arbitrary: sb rule: length_induct)
  case (1 s)
  show ?case
  proof (cases "FindStringSubmatchIndex s")
    case None
    then show ?thesis by simp
  next
    case (Some ixs)
    obtain i0 i1 i2 i3 where ixs: "ixs = (i0, i1, i2, i3)" by (cases ixs) auto
    let ?name = "take (i3 - i2) (drop i2 s)"
    from Some ixs FindStringSubmatchIndex_bounds
    have "i0 < i1 \<and> i1 \<le> length s" by blast
    then have less: "length (drop i1 s) < length s" by (simp, arith)
    show ?thesis
    proof (cases "lookup ?name")
      case None
      with Some ixs show ?thesis by simp
    next
      case v: (Some v)
      have a: "expandLoop lookup acc (drop i1 s) =
          (case expandLoop lookup [] (drop i1 s) of Inl e \<Rightarrow> Inl e
           | Inr r \<Rightarrow> Inr (acc @ r))" for acc
        using 1 less by blast
      have l: "expandLoop lookup sb s = expandLoop lookup (sb @ take i0 s @ v) (drop i1 s)"
        using Some ixs v by simp
      have r: "expandLoop lookup [] s = expandLoop lookup (take i0 s @ v) (drop i1 s)"
        using Some ixs v by simp
      show ?thesis
        unfolding l r
        by (subst a, subst (2) a) (simp split: sum.splits)
    qed
  qed
qed

lemma refAt_drop: "refAt s (i + j) \<longleftrightarrow> refAt (drop i s) j"
  by (simp add: refAt_def add.commute)

lemma refAt_matchAt: "refAt s i \<longleftrightarrow> matchAt (drop i s) \<noteq> None"
  using refAt_drop [of s i 0] by (simp add: refAt_0)

lemma FindStringSubmatchIndex_Some:
  assumes "FindStringSubmatchIndex s = Some (i0, i1, i2, i3)"
  shows "\<exists>n. isName n \<and> s = take i0 s @ varRef n @ drop i1 s \<and> i1 = i0 + length n + 3
           \<and> i2 = i0 + 2 \<and> i3 = i2 + length n \<and> (\<forall>j<i0. \<not> refAt s j)"
  using assms
proof (induction s arbitrary: i0 i1 i2 i3)
  case Nil
  then show ?case by simp
next
  case (Cons c cs)
  show ?case
  proof (cases "matchAt (c # cs)")
    case (Some e)
    from matchAt_Some [OF Some] obtain n t where
      n: "isName n" "c # cs = varRef n @ t" "e = length n + 3" by blast
    from Cons.prems Some have "i0 = 0" "i1 = e" "i2 = 2" "i3 = e - 1" by auto
    moreover have "drop e (c # cs) = t" using n by (simp add: varRef_def numeral_3_eq_3)
    ultimately show ?thesis using n by (intro exI [of _ n]) (simp add: varRef_def)
  next
    case None
    with Cons.prems obtain j0 j1 j2 j3 where
      j: "FindStringSubmatchIndex cs = Some (j0, j1, j2, j3)"
        "i0 = Suc j0" "i1 = Suc j1" "i2 = Suc j2" "i3 = Suc j3"
      by auto
    from Cons.IH [OF j(1)] obtain n where
      n: "isName n" "cs = take j0 cs @ varRef n @ drop j1 cs" "j1 = j0 + length n + 3"
        "j2 = j0 + 2" "j3 = j2 + length n" "\<forall>j<j0. \<not> refAt cs j" by blast
    have "\<not> refAt (c # cs) j" if "j < i0" for j
    proof (cases j)
      case 0
      then show ?thesis using None by (simp add: refAt_0)
    next
      case (Suc k)
      then show ?thesis using that n(6) j(2) by (simp add: refAt_Suc)
    qed
    moreover have "c # cs = take i0 (c # cs) @ varRef n @ drop i1 (c # cs)"
      using n(2) j by simp
    ultimately show ?thesis using n j by (intro exI [of _ n]) simp
  qed
qed

lemma expandVariables_step:
  assumes "isName n" and "\<forall>i<length pre. \<not> refAt (pre @ varRef n @ post) i"
  shows "expandVariables (pre @ varRef n @ post) lookup =
        (case lookup n of
           None \<Rightarrow> Inl (ErrVarNotFound n)
         | Some v \<Rightarrow>
             (case expandVariables post lookup of
                Inl e \<Rightarrow> Inl e
              | Inr r \<Rightarrow> Inr (pre @ v @ r)))"
proof -
  let ?s = "pre @ varRef n @ post"
  have f: "FindStringSubmatchIndex ?s =
      Some (length pre, length pre + length n + 3, length pre + 2, length pre + 2 + length n)"
    using assms by (rule FindStringSubmatchIndex_leftmost)
  have name: "take (length pre + 2 + length n - (length pre + 2)) (drop (length pre + 2) ?s) = n"
    by (simp add: varRef_def)
  have rest: "drop (length pre + length n + 3) ?s = post"
    by (simp add: varRef_def numeral_3_eq_3)
  have take_pre: "take (length pre) ?s = pre" by simp
  have "expandLoop lookup [] ?s =
      (case lookup n of
         None \<Rightarrow> Inl (ErrVarNotFound n)
       | Some v \<Rightarrow> expandLoop lookup (pre @ v) post)"
    by (subst expandLoop.simps)
      (simp only: f option.case prod.case Let_def name rest take_pre append_Nil)
  then show ?thesis
    unfolding expandVariables_def
    by (subst (asm) expandLoop_acc) (simp split: option.splits sum.splits)
qed

text \<open>
  Claim C4. A string in which no reference \<^verbatim>\<open>${NAME}\<close> starts anywhere is returned
  unchanged. Otherwise let the leftmost reference be \<open>varRef n\<close>, with \<open>pre\<close> before it
  and \<open>post\<close> after it: if \<open>lookup n\<close> fails, the call fails with the error that names
  \<open>n\<close>; if it gives \<open>v\<close>, the result is \<open>pre\<close>, then \<open>v\<close> as it is, then the expansion
  of \<open>post\<close> alone. So scanning resumes strictly after the substituted text, and the
  value is not expanded again.
\<close>

theorem expandVariables_leftmost:
  "((\<forall>i. \<not> refAt s i) \<longrightarrow> expandVariables s lookup = Inr s) \<and>
   (isName n \<and> (\<forall>i<length pre. \<not> refAt (pre @ varRef n @ post) i) \<longrightarrow>
      expandVariables (pre @ varRef n @ post) lookup =
        (case lookup n of
           None \<Rightarrow> Inl (ErrVarNotFound n)
         | Some v \<Rightarrow>
             (case expandVariables post lookup of
                Inl e \<Rightarrow> Inl e
              | Inr r \<Rightarrow> Inr (pre @ v @ r))))"
proof (intro conjI impI)
  assume "\<forall>i. \<not> refAt s i"
  then have "FindStringSubmatchIndex s = None"
    by (simp add: FindStringSubmatchIndex_None)
  then show "expandVariables s lookup = Inr s"
    by (simp add: expandVariables_def)
next
  assume "isName n \<and> (\<forall>i<length pre. \<not> refAt (pre @ varRef n @ post) i)"
  then show "expandVariables (pre @ varRef n @ post) lookup =
        (case lookup n of
           None \<Rightarrow> Inl (ErrVarNotFound n)
         | Some v \<Rightarrow>
             (case expandVariables post lookup of
                Inl e \<Rightarrow> Inl e
              | Inr r \<Rightarrow> Inr (pre @ v @ r)))"
    using expandVariables_step by blast
qed

theorem expandVariables_leftmost_witness:
  "expandVariables ''abc'' testLookup = Inr ''abc'' \<and>
   expandVariables ('' x'' @ varRef ''A'' @ ''y'') testLookup = Inr '' x1y'' \<and>
   expandVariables (''x'' @ varRef ''C'' @ ''y'') testLookup = Inl (ErrVarNotFound ''C'') \<and>
   expandVariables (''$'' @ varRef ''A'' @ ''{A}'') (\<lambda>n. Some ''${A}'') = Inr ''$${A}{A}''"
proof (intro conjI)
  have "FindStringSubmatchIndex ''abc'' = None" by code_simp
  then have "\<forall>i. \<not> refAt ''abc'' i" by (rule FindStringSubmatchIndex_None [THEN iffD1])
  then show "expandVariables ''abc'' testLookup = Inr ''abc''"
    using expandVariables_leftmost [where s = "''abc''"] by blast
next
  have "isName ''A''" by code_simp
  moreover have "\<forall>i<length '' x''. \<not> refAt ('' x'' @ varRef ''A'' @ ''y'') i"
    by (simp add: refAt_matchAt less_Suc_eq numeral_2_eq_2 varRef_def)
  moreover have "testLookup ''A'' = Some ''1''" by code_simp
  moreover have "expandVariables ''y'' testLookup = Inr ''y''" by code_simp
  ultimately show "expandVariables ('' x'' @ varRef ''A'' @ ''y'') testLookup = Inr '' x1y''"
    using expandVariables_leftmost [where n = "''A''" and pre = "'' x''" and post = "''y''"
        and lookup = testLookup]
    by simp
next
  have "isName ''C''" by code_simp
  moreover have "\<forall>i<length ''x''. \<not> refAt (''x'' @ varRef ''C'' @ ''y'') i"
    by (simp add: refAt_matchAt varRef_def)
  moreover have "testLookup ''C'' = None" by code_simp
  ultimately show "expandVariables (''x'' @ varRef ''C'' @ ''y'') testLookup
      = Inl (ErrVarNotFound ''C'')"
    using expandVariables_leftmost [where n = "''C''" and pre = "''x''" and post = "''y''"
        and lookup = testLookup]
    by simp
next
  have "isName ''A''" by code_simp
  moreover have "\<forall>i<length ''$''. \<not> refAt (''$'' @ varRef ''A'' @ ''{A}'') i"
    by (simp add: refAt_matchAt varRef_def)
  moreover have "expandVariables ''{A}'' (\<lambda>n. Some ''${A}'') = Inr ''{A}''" by code_simp
  ultimately show "expandVariables (''$'' @ varRef ''A'' @ ''{A}'') (\<lambda>n. Some ''${A}'')
      = Inr ''$${A}{A}''"
    using expandVariables_leftmost [where n = "''A''" and pre = "''$''" and post = "''{A}''"
        and lookup = "\<lambda>n. Some ''${A}''"]
    by simp
qed

lemma refNameAt_iff:
  "refNameAt s i = Some n \<longleftrightarrow> isName n \<and> prefix (varRef n) (drop i s)"
proof
  assume "refNameAt s i = Some n"
  then obtain e where e: "matchAt (drop i s) = Some e" and n: "n = take (e - 3) (drop (i + 2) s)"
    by (auto simp: refNameAt_def)
  from matchAt_Some [OF e] obtain m t where
    m: "isName m" "drop i s = varRef m @ t" "e = length m + 3" by blast
  have "drop (i + 2) s = drop 2 (drop i s)" by (simp add: add.commute)
  then have "n = m" using n m by (simp add: varRef_def)
  with m show "isName n \<and> prefix (varRef n) (drop i s)" by simp
next
  assume a: "isName n \<and> prefix (varRef n) (drop i s)"
  then obtain t where t: "drop i s = varRef n @ t" by (auto simp: prefix_def)
  then have "matchAt (drop i s) = Some (length n + 3)"
    using a by (simp add: matchAt_varRef)
  moreover have "drop (i + 2) s = drop 2 (drop i s)" by (simp add: add.commute)
  ultimately show "refNameAt s i = Some n"
    using t by (simp add: refNameAt_def varRef_def)
qed

lemma allRefsDefined_iff:
  "allRefsDefined s lookup \<longleftrightarrow>
     list_all (\<lambda>i. case refNameAt s i of None \<Rightarrow> True | Some n \<Rightarrow> lookup n \<noteq> None)
       [0..<length s]"
proof
  assume a: "allRefsDefined s lookup"
  show "list_all (\<lambda>i. case refNameAt s i of None \<Rightarrow> True | Some n \<Rightarrow> lookup n \<noteq> None)
       [0..<length s]"
    unfolding list_all_iff
  proof (intro ballI)
    fix i
    show "case refNameAt s i of None \<Rightarrow> True | Some n \<Rightarrow> lookup n \<noteq> None"
    proof (cases "refNameAt s i")
      case None
      then show ?thesis by simp
    next
      case (Some n)
      then have "isName n \<and> prefix (varRef n) (drop i s)" by (simp add: refNameAt_iff)
      with a have "lookup n \<noteq> None" unfolding allRefsDefined_def by blast
      with Some show ?thesis by simp
    qed
  qed
next
  assume l: "list_all (\<lambda>i. case refNameAt s i of None \<Rightarrow> True | Some n \<Rightarrow> lookup n \<noteq> None)
       [0..<length s]"
  show "allRefsDefined s lookup"
    unfolding allRefsDefined_def
  proof (intro allI impI)
    fix i n
    assume a: "isName n \<and> prefix (varRef n) (drop i s)"
    then have r: "refNameAt s i = Some n" by (simp add: refNameAt_iff)
    have "i < length s"
    proof (rule ccontr)
      assume "\<not> i < length s"
      then have "drop i s = []" by simp
      with a show False by (simp add: varRef_def)
    qed
    with l have "case refNameAt s i of None \<Rightarrow> True | Some n \<Rightarrow> lookup n \<noteq> None"
      by (simp add: list_all_iff)
    with r show "lookup n \<noteq> None" by simp
  qed
qed

lemma dollarsAreRefs_iff:
  "dollarsAreRefs s \<longleftrightarrow>
     list_all (\<lambda>i. s ! i \<noteq> CHR ''$'' \<or> matchAt (drop i s) \<noteq> None) [0..<length s]"
  by (auto simp: dollarsAreRefs_def list_all_iff refAt_matchAt)

lemma refAt_has_dollar: "refAt r i \<Longrightarrow> CHR ''$'' \<in> set r"
proof -
  assume "refAt r i"
  then obtain n t where "drop i r = varRef n @ t" by (auto simp: refAt_def prefix_def)
  then have "CHR ''$'' \<in> set (drop i r)" by (simp add: varRef_def)
  then show ?thesis by (meson in_set_dropD)
qed

lemma expand_defined:
  "allRefsDefined s lookup \<Longrightarrow>
     \<exists>r. expandVariables s lookup = Inr r \<and>
       (dollarsAreRefs s \<longrightarrow> (\<forall>n v. lookup n = Some v \<longrightarrow> CHR ''$'' \<notin> set v)
          \<longrightarrow> CHR ''$'' \<notin> set r)"
proof (induction s rule: length_induct)
  case (1 s)
  show ?case
  proof (cases "FindStringSubmatchIndex s")
    case None
    then have no: "\<forall>i. \<not> refAt s i" by (simp add: FindStringSubmatchIndex_None)
    have "CHR ''$'' \<notin> set s" if "dollarsAreRefs s"
      using that no by (auto simp: dollarsAreRefs_def in_set_conv_nth)
    moreover have "expandVariables s lookup = Inr s"
      using None by (simp add: expandVariables_def)
    ultimately show ?thesis by simp
  next
    case (Some ixs)
    obtain i0 i1 i2 i3 where ixs: "ixs = (i0, i1, i2, i3)" by (cases ixs) auto
    from FindStringSubmatchIndex_Some [OF Some [unfolded ixs]] obtain n where
      n: "isName n" and s: "s = take i0 s @ varRef n @ drop i1 s"
      and i1: "i1 = i0 + length n + 3" and left: "\<forall>j<i0. \<not> refAt s j" by blast
    define pre post where "pre = take i0 s" and "post = drop i1 s"
    from Some ixs FindStringSubmatchIndex_bounds have b: "i0 < i1 \<and> i1 \<le> length s" by blast
    then have lp: "length pre = i0" by (simp add: pre_def)
    have s': "s = pre @ varRef n @ post" using s by (simp add: pre_def post_def)
    have "prefix (varRef n) (drop i0 s)"
      by (subst s') (simp add: lp)
    with n 1(2) obtain v where v: "lookup n = Some v"
      unfolding allRefsDefined_def by blast
    have dp: "drop j post = drop (i1 + j) s" for j
      by (simp add: post_def add.commute)
    have "allRefsDefined post lookup"
      using 1(2) unfolding allRefsDefined_def dp by blast
    moreover have "length post < length s"
      using b by (simp add: post_def, arith)
    ultimately obtain r where r: "expandVariables post lookup = Inr r"
      and r': "dollarsAreRefs post \<longrightarrow> (\<forall>n v. lookup n = Some v \<longrightarrow> CHR ''$'' \<notin> set v)
          \<longrightarrow> CHR ''$'' \<notin> set r"
      using 1(1) by blast
    have left': "\<forall>i<length pre. \<not> refAt (pre @ varRef n @ post) i"
      using left lp s' by simp
    have res: "expandVariables s lookup = Inr (pre @ v @ r)"
      by (subst s', subst expandVariables_step [OF n left']) (simp add: v r)
    have "CHR ''$'' \<notin> set (pre @ v @ r)"
      if d: "dollarsAreRefs s" and vals: "\<forall>n v. lookup n = Some v \<longrightarrow> CHR ''$'' \<notin> set v"
    proof -
      have "CHR ''$'' \<notin> set pre"
      proof
        assume "CHR ''$'' \<in> set pre"
        then obtain j where j: "j < length pre" "pre ! j = CHR ''$''"
          by (auto simp: in_set_conv_nth)
        then have "s ! j = CHR ''$''" "j < length s"
          using b lp by (simp_all add: pre_def)
        with d have "refAt s j" by (simp add: dollarsAreRefs_def)
        with left j lp show False by simp
      qed
      moreover have "CHR ''$'' \<notin> set v" using vals v by blast
      moreover have "dollarsAreRefs post"
        unfolding dollarsAreRefs_def
      proof (intro allI impI)
        fix j assume j: "j < length post" "post ! j = CHR ''$''"
        then have "i1 + j < length s" "s ! (i1 + j) = CHR ''$''"
          using b by (auto simp: post_def)
        with d have "refAt s (i1 + j)" by (simp add: dollarsAreRefs_def)
        then show "refAt post j" by (simp add: refAt_drop post_def)
      qed
      ultimately show ?thesis using r' vals by simp
    qed
    with res show ?thesis by simp
  qed
qed

text \<open>
  Claim C8, as amended. If every reference in \<open>s\<close> names a defined variable,
  \<open>expandVariables\<close> succeeds. If moreover every \<^verbatim>\<open>$\<close> of \<open>s\<close> starts a reference and
  no value of \<open>lookup\<close> contains a \<^verbatim>\<open>$\<close>, the result contains no \<^verbatim>\<open>$\<close> and hence no
  reference.
\<close>

theorem expandVariables_defined:
  "allRefsDefined s lookup \<longrightarrow>
     (\<exists>r. expandVariables s lookup = Inr r \<and>
        (dollarsAreRefs s \<and> (\<forall>n v. lookup n = Some v \<longrightarrow> CHR ''$'' \<notin> set v)
           \<longrightarrow> CHR ''$'' \<notin> set r \<and> (\<forall>i. \<not> refAt r i)))"
proof
  assume "allRefsDefined s lookup"
  from expand_defined [OF this] show
    "\<exists>r. expandVariables s lookup = Inr r \<and>
        (dollarsAreRefs s \<and> (\<forall>n v. lookup n = Some v \<longrightarrow> CHR ''$'' \<notin> set v)
           \<longrightarrow> CHR ''$'' \<notin> set r \<and> (\<forall>i. \<not> refAt r i))"
    using refAt_has_dollar by blast
qed

theorem expandVariables_defined_witness:
  "\<exists>r. expandVariables ''${A}${B_C}'' testLookup = Inr r \<and> r = ''1234''
       \<and> CHR ''$'' \<notin> set r \<and> \<not> refAt r 0"
proof -
  have "allRefsDefined ''${A}${B_C}'' testLookup"
    unfolding allRefsDefined_iff by code_simp
  moreover have "dollarsAreRefs ''${A}${B_C}''"
    unfolding dollarsAreRefs_iff by code_simp
  moreover have "\<forall>n v. testLookup n = Some v \<longrightarrow> CHR ''$'' \<notin> set v"
    by (auto simp: testLookup_def split: if_splits)
  moreover have "expandVariables ''${A}${B_C}'' testLookup = Inr ''1234''"
    by code_simp
  ultimately show ?thesis
    using expandVariables_defined [of "''${A}${B_C}''" testLookup] by auto
qed

text \<open>
  Claim C8 as stated fails: with the variables of the test, every reference in
  \<^verbatim>\<open>${${A}}\<close> is defined and the result \<^verbatim>\<open>${1}\<close> is a reference; and a value that is
  itself a reference is copied to the result as it is.
\<close>

theorem expandVariables_pattern_counterexample:
  "allRefsDefined ''${${A}}'' testLookup \<and>
   expandVariables ''${${A}}'' testLookup = Inr ''${1}'' \<and>
   refAt ''${1}'' 0 \<and>
   allRefsDefined ''${A}'' (\<lambda>n. if n = ''A'' then Some ''${B}'' else None) \<and>
   expandVariables ''${A}'' (\<lambda>n. if n = ''A'' then Some ''${B}'' else None) = Inr ''${B}'' \<and>
   refAt ''${B}'' 0"
proof (intro conjI)
  show "allRefsDefined ''${${A}}'' testLookup"
    unfolding allRefsDefined_iff by code_simp
  show "expandVariables ''${${A}}'' testLookup = Inr ''${1}''" by code_simp
  show "refAt ''${1}'' 0" unfolding refAt_matchAt by code_simp
  show "allRefsDefined ''${A}'' (\<lambda>n. if n = ''A'' then Some ''${B}'' else None)"
    unfolding allRefsDefined_iff by code_simp
  show "expandVariables ''${A}'' (\<lambda>n. if n = ''A'' then Some ''${B}'' else None) = Inr ''${B}''"
    by code_simp
  show "refAt ''${B}'' 0" unfolding refAt_matchAt by code_simp
qed

subsection \<open>Reading and writing test files\<close>

lemma unlines_append: "unlines (xs @ ys) = unlines xs @ unlines ys"
  by (simp add: unlines_def)

lemma writeLines_buffer: "writeLines bufferWrite buf ls = (None, buf @ unlines ls)"
  by (induction ls arbitrary: buf) (simp_all add: bufferWrite_def unlines_def)

lemma writeCommandList_buffer:
  "writeCommandList bufferWrite buf cs = (None, buf @ unlines (map (\<lambda>c. ''$ '' @ c) cs))"
  by (induction cs arbitrary: buf) (simp_all add: bufferWrite_def unlines_def)

lemma tc_write_buffer: "tc_write bufferWrite buf tc = (None, buf @ unlines (caseLines tc))"
  by (simp add: tc_write_def writeCommands_def writeLines_buffer writeCommandList_buffer
      caseLines_def unlines_append)

lemma writeCases_buffer:
  "writeCases bufferWrite buf cs = (None, buf @ unlines (concat (map caseLines cs)))"
  by (induction cs arbitrary: buf) (simp_all add: tc_write_buffer unlines_append unlines_def)

lemma tf_write_buffer: "tf_write bufferWrite buf tf = (None, buf @ unlines (fileLines tf))"
  by (simp add: tf_write_def writeCases_buffer writeLines_buffer fileLines_def unlines_append)

lemma addCase_eq:
  "addCase tf tc = (tf', suf) \<Longrightarrow>
     \<exists>keep. tf' = tf\<lparr>cases := cases tf @ [tc\<lparr>wantOutput := keep\<rparr>]\<rparr> \<and> wantOutput tc = keep @ suf"
  by (auto simp: addCase_def Let_def)

lemma caseLines_keep:
  "gotOutput tc = None \<Longrightarrow> wantOutput tc = keep @ suf \<Longrightarrow>
     caseLines (tc\<lparr>wantOutput := keep\<rparr>) @ suf = caseLines tc"
  by (simp add: caseLines_def)

lemma readLine_step:
  assumes "inv v" and "readLine v l = Ok v'"
  shows "inv v' \<and> pendingLines v' = pendingLines v @ canonFrom (l_tc v \<noteq> None) [l]
     \<and> (l_tc v' \<noteq> None \<longleftrightarrow> l_tc v \<noteq> None \<or> isCommandLine l)"
proof (cases "l_state v")
  case beforeFirstCommand
  with assms show ?thesis
    by (auto simp: readLine_def inv_def Let_def pendingLines_def isCommandLine_def goodCase_def
        caseLines_def newCase_def addCommandLine_def split: if_splits)
next
  case inCommands
  with assms obtain tc where tc: "l_tc v = Some tc" "wantOutput tc = []" "goodCase tc"
    by (auto simp: inv_def split: option.splits)
  with assms inCommands show ?thesis
    by (auto simp: readLine_def inv_def Let_def pendingLines_def isCommandLine_def goodCase_def
        caseLines_def addCommandLine_def split: if_splits)
next
  case inOutput
  with assms obtain tc where tc: "l_tc v = Some tc" "goodCase tc"
    by (auto simp: inv_def split: option.splits)
  show ?thesis
  proof (cases "isCommandLine l")
    case False
    with assms inOutput tc show ?thesis
      by (auto simp: readLine_def inv_def Let_def pendingLines_def isCommandLine_def goodCase_def
          caseLines_def split: if_splits)
  next
    case True
    obtain tf' suf where ac: "addCase (l_tf v) tc = (tf', suf)" by (cases "addCase (l_tf v) tc")
    from addCase_eq [OF ac] obtain keep where
      k: "tf' = (l_tf v)\<lparr>cases := cases (l_tf v) @ [tc\<lparr>wantOutput := keep\<rparr>]\<rparr>"
        "wantOutput tc = keep @ suf" by blast
    have v': "v' = v\<lparr>l_lineno := l_lineno v + 1, l_tf := tf', l_prefix := suf,
         l_tc := Some (addCommandLine (newCase (l_lineno v + 1) suf) l),
         l_state := inCommands\<rparr>"
      using assms(2) inOutput tc True ac
      by (simp add: readLine_def Let_def isCommandLine_def)
    have c1: "caseLines (tc\<lparr>wantOutput := keep\<rparr>) @ suf = caseLines tc"
      using tc k by (simp add: caseLines_keep goodCase_def)
    have c2: "caseLines (addCommandLine (newCase (l_lineno v + 1) suf) l)
        = suf @ [''$ '' @ TrimSpace (drop 1 l)]"
      by (simp add: caseLines_def newCase_def addCommandLine_def)
    have "pendingLines v' =
        concat (map caseLines (cases (l_tf v))) @ caseLines (tc\<lparr>wantOutput := keep\<rparr>)
          @ suf @ [''$ '' @ TrimSpace (drop 1 l)]"
      by (simp add: v' k pendingLines_def c2)
    also have "\<dots> = concat (map caseLines (cases (l_tf v))) @ caseLines tc
          @ [''$ '' @ TrimSpace (drop 1 l)]"
      using c1 by (metis append.assoc)
    finally have "pendingLines v' = pendingLines v @ [''$ '' @ TrimSpace (drop 1 l)]"
      using tc by (simp add: pendingLines_def)
    moreover have "inv v'"
      using assms(1) tc by (simp add: v' k inv_def goodCase_def newCase_def addCommandLine_def)
    ultimately show ?thesis using True tc by (simp add: v')
  qed
qed

lemma readLine_no_panic: "inv v \<Longrightarrow> readLine v l \<noteq> Panic msg"
  by (cases "l_state v")
    (auto simp: readLine_def inv_def Let_def split: if_splits option.splits prod.splits)

lemma canonFrom_Cons:
  "canonFrom seen (l # ls) = canonFrom seen [l] @ canonFrom (seen \<or> isCommandLine l) ls"
  by simp

lemma readLines_inv:
  "inv v \<Longrightarrow> readLines v ls = Ok v' \<Longrightarrow>
     inv v' \<and> pendingLines v' = pendingLines v @ canonFrom (l_tc v \<noteq> None) ls
       \<and> (l_tc v' \<noteq> None \<longleftrightarrow> l_tc v \<noteq> None \<or> list_ex isCommandLine ls)"
proof (induction ls arbitrary: v)
  case Nil
  then show ?case by simp
next
  case (Cons l ls)
  from Cons.prems(2) obtain v1 where v1: "readLine v l = Ok v1" "readLines v1 ls = Ok v'"
    by (auto split: result.splits)
  from readLine_step [OF Cons.prems(1) v1(1)] have
    s: "inv v1" "pendingLines v1 = pendingLines v @ canonFrom (l_tc v \<noteq> None) [l]"
      "l_tc v1 \<noteq> None \<longleftrightarrow> l_tc v \<noteq> None \<or> isCommandLine l" by auto
  from Cons.IH [OF s(1) v1(2)] have
    t: "inv v'" "pendingLines v' = pendingLines v1 @ canonFrom (l_tc v1 \<noteq> None) ls"
      "l_tc v' \<noteq> None \<longleftrightarrow> l_tc v1 \<noteq> None \<or> list_ex isCommandLine ls" by auto
  show ?case
    using s t by (subst canonFrom_Cons) (simp del: canonFrom.simps)
qed

lemma inv_init:
  "inv \<lparr>l_tf = \<lparr>filename = name, cases = [], suffixLines = []\<rparr>, l_tc = None, l_lineno = 0,
        l_prefix = [], l_state = beforeFirstCommand\<rparr>"
  by (simp add: inv_def)

lemma parseLines_Ok:
  assumes "parseLines name ls err = Ok tf"
  shows "\<exists>v. readLines \<lparr>l_tf = \<lparr>filename = name, cases = [], suffixLines = []\<rparr>, l_tc = None,
            l_lineno = 0, l_prefix = [], l_state = beforeFirstCommand\<rparr> ls = Ok v
          \<and> err = None
          \<and> (case l_tc v of
                None \<Rightarrow> tf = l_tf v
              | Some tc \<Rightarrow> tf = (fst (addCase (l_tf v) tc))\<lparr>suffixLines := snd (addCase (l_tf v) tc)\<rparr>)"
  using assms
  by (auto simp: parseLines_def Let_def split: prod.splits result.splits option.splits)

lemma parseLines_final:
  assumes "parseLines name ls err = Ok tf"
  shows "list_all goodCase (cases tf) \<and>
    (list_ex isCommandLine ls \<longrightarrow> fileLines tf = canonFrom False ls)"
proof -
  let ?v0 = "\<lparr>l_tf = \<lparr>filename = name, cases = [], suffixLines = []\<rparr>, l_tc = None,
            l_lineno = 0, l_prefix = [], l_state = beforeFirstCommand\<rparr>"
  from parseLines_Ok [OF assms] obtain v where
    v: "readLines ?v0 ls = Ok v"
    and fin: "case l_tc v of
                None \<Rightarrow> tf = l_tf v
              | Some tc \<Rightarrow> tf = (fst (addCase (l_tf v) tc))\<lparr>suffixLines := snd (addCase (l_tf v) tc)\<rparr>"
    by blast
  from readLines_inv [OF inv_init v] have
    i: "inv v" and p: "pendingLines v = canonFrom False ls"
    and c: "l_tc v \<noteq> None \<longleftrightarrow> list_ex isCommandLine ls"
    by (simp_all add: pendingLines_def)
  show ?thesis
  proof (cases "l_tc v")
    case None
    with fin i c show ?thesis by (simp add: inv_def)
  next
    case (Some tc)
    obtain tf' suf where ac: "addCase (l_tf v) tc = (tf', suf)" by (cases "addCase (l_tf v) tc")
    from addCase_eq [OF ac] obtain keep where
      k: "tf' = (l_tf v)\<lparr>cases := cases (l_tf v) @ [tc\<lparr>wantOutput := keep\<rparr>]\<rparr>"
        "wantOutput tc = keep @ suf" by blast
    from fin Some ac have tf: "tf = tf'\<lparr>suffixLines := suf\<rparr>" by simp
    from i Some have g: "goodCase tc" "list_all goodCase (cases (l_tf v))"
      by (simp_all add: inv_def)
    have "caseLines (tc\<lparr>wantOutput := keep\<rparr>) @ suf = caseLines tc"
      using g k by (simp add: caseLines_keep goodCase_def)
    then have "fileLines tf = pendingLines v"
      by (simp add: tf k fileLines_def pendingLines_def Some)
    moreover have "list_all goodCase (cases tf)"
      using g by (simp add: tf k goodCase_def)
    ultimately show ?thesis using p by simp
  qed
qed

lemma readFile_final:
  assumes "readFile name content = Ok tf"
  shows "list_all goodCase (cases tf) \<and>
    (list_ex isCommandLine (fst (Scan content)) \<longrightarrow>
       fileLines tf = canonFrom False (fst (Scan content)))"
proof -
  from assms have "parseLines name (fst (Scan content)) (snd (Scan content)) = Ok tf"
    by (simp add: readFile_def split: prod.splits)
  then show ?thesis by (rule parseLines_final)
qed

lemma readFile_Scan:
  "Scan content = (ls, err) \<Longrightarrow> readFile name content = parseLines name ls err"
  by (simp add: readFile_def)

lemma roundTrip_Scan:
  "Scan content = (ls, err) \<Longrightarrow>
     roundTrip name content =
       (case parseLines name ls err of
          Ok tf \<Rightarrow> (case tf_write bufferWrite [] tf of (None, buf) \<Rightarrow> Some buf | _ \<Rightarrow> None)
        | _ \<Rightarrow> None)"
  by (simp add: roundTrip_def readFile_def)

lemma splitLines_line:
  "CHR 0x0A \<notin> set l \<Longrightarrow> splitLines cur (l @ CHR 0x0A # rest) = (cur @ l) # splitLines [] rest"
  by (induction l arbitrary: cur) auto

lemma splitLines_unlines:
  "\<forall>l\<in>set ls. CHR 0x0A \<notin> set l \<Longrightarrow> splitLines [] (unlines ls) = ls"
proof (induction ls)
  case Nil
  show ?case by (simp add: unlines_def)
next
  case (Cons l ls)
  have "unlines (l # ls) = l @ CHR 0x0A # unlines ls" by (simp add: unlines_def)
  with Cons show ?case by (simp add: splitLines_line)
qed

lemma Scan_unlines:
  assumes "\<forall>l\<in>set ls. CHR 0x0A \<notin> set l \<and> length l < MaxScanTokenSize \<and> dropCR l = l"
  shows "Scan (unlines ls) = (ls, None)"
proof -
  have 1: "splitLines [] (unlines ls) = ls" using assms by (simp add: splitLines_unlines)
  have 2: "takeWhile (\<lambda>l. length l < MaxScanTokenSize) ls = ls"
    using assms by (simp add: takeWhile_eq_all_conv)
  have 3: "map dropCR ls = ls" using assms by (simp add: map_idI)
  show ?thesis unfolding Scan_def Let_def 1 2 3 by simp
qed

text \<open>
  Claim C1, as amended. For a file that \<open>readFile\<close> accepts and that has a command
  line, writing the parsed file (no case has a \<open>gotOutput\<close>, so \<open>wantOutput\<close> is written)
  gives the lines of the file in the form \<open>canonFrom False\<close>, each ended by a newline: the
  output lines and the ignorable lines after them come back as they were read, a command
  line \<^verbatim>\<open>$X\<close> comes back as \<^verbatim>\<open>$\<close>, a space and \<open>X\<close> trimmed, and a line before the first
  command line comes back trimmed. Hence a text made of newline-terminated lines without
  a trailing carriage return that already is in this form is reproduced byte for byte.
\<close>

theorem readFile_write_normal_form:
  "(readFile name content = Ok tf \<and> list_ex isCommandLine (fst (Scan content)) \<longrightarrow>
      tf_write bufferWrite [] tf = (None, unlines (canonFrom False (fst (Scan content))))
      \<and> list_all (\<lambda>tc. gotOutput tc = None) (cases tf)) \<and>
   ((\<forall>l\<in>set ls. CHR 0x0A \<notin> set l \<and> length l < MaxScanTokenSize \<and> dropCR l = l) \<and>
      canonFrom False ls = ls \<and> list_ex isCommandLine ls \<and>
      readFile name (unlines ls) = Ok tf' \<longrightarrow>
      tf_write bufferWrite [] tf' = (None, unlines ls))"
proof (intro conjI impI)
  assume a: "readFile name content = Ok tf \<and> list_ex isCommandLine (fst (Scan content))"
  with readFile_final [of name content tf] show
    "tf_write bufferWrite [] tf = (None, unlines (canonFrom False (fst (Scan content))))"
    by (simp add: tf_write_buffer)
  from a readFile_final [of name content tf]
  show "list_all (\<lambda>tc. gotOutput tc = None) (cases tf)"
    by (simp add: list_all_iff goodCase_def)
next
  assume a: "(\<forall>l\<in>set ls. CHR 0x0A \<notin> set l \<and> length l < MaxScanTokenSize \<and> dropCR l = l) \<and>
      canonFrom False ls = ls \<and> list_ex isCommandLine ls \<and>
      readFile name (unlines ls) = Ok tf'"
  then have "Scan (unlines ls) = (ls, None)" by (simp add: Scan_unlines)
  with a readFile_final [of name "unlines ls" tf']
  show "tf_write bufferWrite [] tf' = (None, unlines ls)"
    by (simp add: tf_write_buffer)
qed

theorem readFile_write_normal_form_witness:
  "readFile ''x.ct'' (''  # c'' @ [CHR 0x0A] @ ''$x'' @ [CHR 0x0D, CHR 0x0A] @ ''out'')
     = Ok \<lparr>filename = ''x.ct'',
           cases = [\<lparr>before = [''# c''], startLine = 2, commands = [''x''], gotOutput = None,
                     wantOutput = [''out'']\<rparr>],
           suffixLines = []\<rparr> \<and>
   tf_write bufferWrite []
       \<lparr>filename = ''x.ct'',
           cases = [\<lparr>before = [''# c''], startLine = 2, commands = [''x''], gotOutput = None,
                     wantOutput = [''out'']\<rparr>],
           suffixLines = []\<rparr>
     = (None, unlines [''# c'', ''$ x'', ''out'']) \<and>
   (\<exists>tf. readFile ''read.ct'' (unlines sampleFile) = Ok tf
      \<and> tf_write bufferWrite [] tf = (None, unlines sampleFile))"
proof (intro conjI)
  let ?content = "''  # c'' @ [CHR 0x0A] @ ''$x'' @ [CHR 0x0D, CHR 0x0A] @ ''out''"
  let ?tf = "\<lparr>filename = ''x.ct'',
           cases = [\<lparr>before = [''# c''], startLine = 2, commands = [''x''], gotOutput = None,
                     wantOutput = [''out'']\<rparr>],
           suffixLines = []\<rparr>"
  have sc: "Scan ?content = ([''  # c'', ''$x'', ''out''], None)"
    by (simp add: Scan_def MaxScanTokenSize_def dropCR_def)
  have "parseLines ''x.ct'' [''  # c'', ''$x'', ''out''] None = Ok ?tf" by code_simp
  then show r: "readFile ''x.ct'' ?content = Ok ?tf"
    by (simp only: readFile_Scan [OF sc])
  have "list_ex isCommandLine [''  # c'', ''$x'', ''out'']" by code_simp
  moreover have "canonFrom False [''  # c'', ''$x'', ''out''] = [''# c'', ''$ x'', ''out'']"
    by code_simp
  ultimately show "tf_write bufferWrite [] ?tf = (None, unlines [''# c'', ''$ x'', ''out''])"
    using r readFile_write_normal_form [where name = "''x.ct''" and content = ?content and tf = ?tf,
        THEN conjunct1]
    by (simp only: sc fst_conv simp_thms)
next
  have 1: "\<forall>l\<in>set sampleFile. CHR 0x0A \<notin> set l \<and> length l < MaxScanTokenSize \<and> dropCR l = l"
    by (simp add: sampleFile_def MaxScanTokenSize_def dropCR_def)
  have 2: "canonFrom False sampleFile = sampleFile" by code_simp
  have 3: "list_ex isCommandLine sampleFile" by code_simp
  obtain tf where p: "parseLines ''read.ct'' sampleFile None = Ok tf"
  proof -
    have "case parseLines ''read.ct'' sampleFile None of Ok tf \<Rightarrow> True | _ \<Rightarrow> False"
      by code_simp
    then show ?thesis using that by (auto split: result.splits)
  qed
  have tf: "readFile ''read.ct'' (unlines sampleFile) = Ok tf"
    using p by (simp only: readFile_Scan [OF Scan_unlines [OF 1]])
  have "tf_write bufferWrite [] tf = (None, unlines sampleFile)"
    using readFile_write_normal_form [where name = "''read.ct''" and ls = sampleFile and tf' = tf,
        THEN conjunct2] 1 2 3 tf
    by blast
  with tf show "\<exists>tf. readFile ''read.ct'' (unlines sampleFile) = Ok tf
      \<and> tf_write bufferWrite [] tf = (None, unlines sampleFile)" by blast
qed

text \<open>
  Claim C1 as stated fails, and not because of trailing blank lines: \<^verbatim>\<open>$x\<close> is written
  back as \<^verbatim>\<open>$ x\<close>, an indented comment before the first command loses its indentation,
  and a file without a command line is written back empty.
\<close>

theorem roundTrip_counterexample:
  "roundTrip ''x.ct'' (''$x'' @ [CHR 0x0A]) = Some (''$ x'' @ [CHR 0x0A]) \<and>
   roundTrip ''x.ct'' (''  # c'' @ [CHR 0x0A] @ ''$ x'' @ [CHR 0x0A])
     = Some (''# c'' @ [CHR 0x0A] @ ''$ x'' @ [CHR 0x0A]) \<and>
   roundTrip ''x.ct'' (''# c'' @ [CHR 0x0A]) = Some []"
proof (intro conjI)
  have s: "Scan (''$x'' @ [CHR 0x0A]) = ([''$x''], None)"
    by (simp add: Scan_def MaxScanTokenSize_def dropCR_def)
  show "roundTrip ''x.ct'' (''$x'' @ [CHR 0x0A]) = Some (''$ x'' @ [CHR 0x0A])"
    unfolding roundTrip_Scan [OF s] by code_simp
next
  have s: "Scan (''  # c'' @ [CHR 0x0A] @ ''$ x'' @ [CHR 0x0A]) = ([''  # c'', ''$ x''], None)"
    by (simp add: Scan_def MaxScanTokenSize_def dropCR_def)
  show "roundTrip ''x.ct'' (''  # c'' @ [CHR 0x0A] @ ''$ x'' @ [CHR 0x0A])
     = Some (''# c'' @ [CHR 0x0A] @ ''$ x'' @ [CHR 0x0A])"
    unfolding roundTrip_Scan [OF s] by code_simp
next
  have s: "Scan (''# c'' @ [CHR 0x0A]) = ([''# c''], None)"
    by (simp add: Scan_def MaxScanTokenSize_def dropCR_def)
  show "roundTrip ''x.ct'' (''# c'' @ [CHR 0x0A]) = Some []"
    unfolding roundTrip_Scan [OF s] by code_simp
qed

text \<open>
  Claim C9. Every case of a test file that \<open>readFile\<close> returns has at least one
  command.
\<close>

theorem readFile_commands_nonempty:
  "readFile name content = Ok tf \<longrightarrow> list_all (\<lambda>tc. commands tc \<noteq> []) (cases tf)"
proof
  assume "readFile name content = Ok tf"
  from readFile_final [OF this] show "list_all (\<lambda>tc. commands tc \<noteq> []) (cases tf)"
    by (simp add: list_all_iff goodCase_def)
qed

theorem readFile_commands_nonempty_witness:
  "list_all (\<lambda>tc. commands tc \<noteq> [])
     (cases \<lparr>filename = ''x.ct'',
           cases = [\<lparr>before = [], startLine = 1, commands = [[]], gotOutput = None,
                     wantOutput = []\<rparr>,
                    \<lparr>before = [[]], startLine = 3, commands = [''c  d'', ''e''],
                     gotOutput = None, wantOutput = [''out'']\<rparr>],
           suffixLines = [[]]\<rparr>)"
proof -
  have "\<forall>l\<in>set [''$'', [], ''$ c  d'', ''$e   '', ''out'', []].
      CHR 0x0A \<notin> set l \<and> length l < MaxScanTokenSize \<and> dropCR l = l"
    by (simp add: MaxScanTokenSize_def dropCR_def)
  from readFile_Scan [OF Scan_unlines [OF this]]
  have "readFile ''x.ct'' (unlines [''$'', [], ''$ c  d'', ''$e   '', ''out'', []])
     = parseLines ''x.ct'' [''$'', [], ''$ c  d'', ''$e   '', ''out'', []] None" .
  also have "\<dots> = Ok \<lparr>filename = ''x.ct'',
           cases = [\<lparr>before = [], startLine = 1, commands = [[]], gotOutput = None,
                     wantOutput = []\<rparr>,
                    \<lparr>before = [[]], startLine = 3, commands = [''c  d'', ''e''],
                     gotOutput = None, wantOutput = [''out'']\<rparr>],
           suffixLines = [[]]\<rparr>"
    by code_simp
  finally show ?thesis
    using readFile_commands_nonempty by blast
qed

lemma trimIndex_le: "trimIndex out n \<le> n"
  by (induction n) auto

lemma trimIndex_suffix:
  "n \<le> length out \<Longrightarrow> \<forall>j. trimIndex out n \<le> j \<and> j < n \<longrightarrow> ignorable (out ! j)"
proof (induction n)
  case 0
  then show ?case by simp
next
  case (Suc n)
  then show ?case
    by (auto simp: ignorable_def less_Suc_eq)
qed

lemma trimIndex_last:
  "0 < trimIndex out n \<Longrightarrow> \<not> ignorable (out ! (trimIndex out n - 1))"
  by (induction n) (auto simp: ignorable_def split: if_splits)

lemma trimIndex_all_ignorable:
  "n \<le> length out \<Longrightarrow> \<forall>j<n. ignorable (out ! j) \<Longrightarrow> trimIndex out n = 0"
  by (induction n) (auto simp: ignorable_def)

text \<open>
  Claim C5, as amended. \<open>addCase\<close> appends the case with \<open>wantOutput\<close> cut down to
  \<open>keep\<close> and returns the rest \<open>suf\<close>: together they are the collected output lines,
  every line of \<open>suf\<close> is ignorable, and \<open>keep\<close> is empty or ends with a line that is
  not ignorable. So the last line that is neither empty nor a comment is the last line
  of \<open>wantOutput\<close>, the suffix starts after it, and output that is ignorable throughout
  leaves \<open>wantOutput\<close> empty.
\<close>

theorem addCase_keeps_last_significant:
  "addCase tf tc = (tf', suf) \<longrightarrow>
     (\<exists>keep. cases tf' = cases tf @ [tc\<lparr>wantOutput := keep\<rparr>]
        \<and> wantOutput tc = keep @ suf
        \<and> list_all ignorable suf
        \<and> (keep = [] \<or> \<not> ignorable (last keep))
        \<and> (list_all ignorable (wantOutput tc) \<longrightarrow> keep = []))"
proof
  assume a: "addCase tf tc = (tf', suf)"
  let ?out = "wantOutput tc"
  let ?i = "trimIndex ?out (length ?out)"
  let ?keep = "take ?i ?out"
  from a have tf': "tf' = tf\<lparr>cases := cases tf @ [tc\<lparr>wantOutput := ?keep\<rparr>]\<rparr>"
    and suf: "suf = drop ?i ?out"
    by (auto simp: addCase_def Let_def)
  have le: "?i \<le> length ?out" by (rule trimIndex_le)
  have 1: "list_all ignorable suf"
    unfolding list_all_length suf
    using trimIndex_suffix [of "length ?out" ?out] le by auto
  have 2: "?keep = [] \<or> \<not> ignorable (last ?keep)"
  proof (cases "?i = 0")
    case True
    then show ?thesis by simp
  next
    case False
    then have "\<not> ignorable (?out ! (?i - 1))" using trimIndex_last by simp
    moreover have "?keep \<noteq> []" using False le by auto
    then have "last ?keep = ?keep ! (length ?keep - 1)" by (rule last_conv_nth)
    then have "last ?keep = ?out ! (?i - 1)"
      using False le by (simp add: min_absorb2)
    ultimately show ?thesis by simp
  qed
  have 3: "list_all ignorable ?out \<longrightarrow> ?keep = []"
    using trimIndex_all_ignorable [of "length ?out" ?out]
    by (simp add: list_all_length)
  show "\<exists>keep. cases tf' = cases tf @ [tc\<lparr>wantOutput := keep\<rparr>]
        \<and> wantOutput tc = keep @ suf
        \<and> list_all ignorable suf
        \<and> (keep = [] \<or> \<not> ignorable (last keep))
        \<and> (list_all ignorable (wantOutput tc) \<longrightarrow> keep = [])"
    using 1 2 3 by (intro exI [of _ ?keep]) (simp add: tf' suf)
qed

theorem addCase_keeps_last_significant_witness:
  "cases (fst (addCase emptyFile hiCase)) = [hiCase\<lparr>wantOutput := [''hi'']\<rparr>] \<and>
   snd (addCase emptyFile hiCase) = [[]] \<and>
   list_all ignorable (snd (addCase emptyFile hiCase))"
proof -
  have e: "addCase emptyFile hiCase = (fst (addCase emptyFile hiCase), snd (addCase emptyFile hiCase))"
    by simp
  have s: "snd (addCase emptyFile hiCase) = [[]]" by code_simp
  from addCase_keeps_last_significant [THEN mp, OF e] obtain keep where
    k: "cases (fst (addCase emptyFile hiCase)) = cases emptyFile @ [hiCase\<lparr>wantOutput := keep\<rparr>]"
      "wantOutput hiCase = keep @ snd (addCase emptyFile hiCase)"
      "list_all ignorable (snd (addCase emptyFile hiCase))"
    by blast
  from k(2) s have "keep = [''hi'']" by (simp add: hiCase_def)
  with k s show ?thesis by (simp add: emptyFile_def)
qed

text \<open>
  Claim C5 as stated puts the last line that is not ignorable into the suffix. For the
  file of the specification's first example (\<^verbatim>\<open>$ echo hi\<close>, \<^verbatim>\<open>hi\<close>, an empty line) that
  would leave \<open>wantOutput\<close> empty; the code keeps \<^verbatim>\<open>hi\<close> and returns the empty line only.
\<close>

theorem addCase_split_counterexample:
  "parseLines ''x.ct'' [''$ echo hi'', ''hi'', []] None
     = Ok \<lparr>filename = ''x.ct'',
           cases = [\<lparr>before = [], startLine = 1, commands = [''echo hi''], gotOutput = None,
                     wantOutput = [''hi'']\<rparr>],
           suffixLines = [[]]\<rparr> \<and>
   wantOutput (last (cases (fst (addCase emptyFile hiCase)))) = [''hi''] \<and>
   snd (addCase emptyFile hiCase) = [[]] \<and>
   splitAsStated (wantOutput hiCase) = ([], [''hi'', []])"
  by (intro conjI; code_simp)

lemma errorsAs_None:
  "errorsAs target err = None \<longleftrightarrow> (\<forall>e\<in>set (errorTree err). target e = None)"
proof -
  have "List.map_filter target xs = [] \<longleftrightarrow> (\<forall>e\<in>set xs. target e = None)" for xs
    by (induction xs) (auto split: option.splits)
  then have "List.map_filter target (errorTree err) = []
      \<longleftrightarrow> (\<forall>e\<in>set (errorTree err). target e = None)" .
  moreover have "errorsAs target err = None \<longleftrightarrow> List.map_filter target (errorTree err) = []"
    by (simp add: errorsAs_def split: list.splits)
  ultimately show ?thesis by simp
qed

lemma errorsAs_Some:
  "errorsAs target err = Some x \<Longrightarrow> \<exists>e\<in>set (errorTree err). target e = Some x"
proof -
  have "List.map_filter target xs = y # ys \<Longrightarrow> \<exists>e\<in>set xs. target e = Some y" for xs y ys
    by (induction xs) (auto split: option.splits)
  then show "errorsAs target err = Some x \<Longrightarrow> \<exists>e\<in>set (errorTree err). target e = Some x"
    by (auto simp: errorsAs_def split: list.splits)
qed

lemma asErrno_Some: "asErrno e = Some n \<longleftrightarrow> e = Errno n"
  by (cases e) (auto simp: asErrno_def)

lemma asExitError_Some: "asExitError e = Some c \<longleftrightarrow> e = ExitError c"
  by (cases e) (auto simp: asExitError_def)

lemma asExitCodeErr_Some: "asExitCodeErr e = Some c \<longleftrightarrow> (\<exists>m. e = ExitCodeErr m c)"
  by (cases e) (auto simp: asExitCodeErr_def)

lemma no_Errno: "errorsAs asErrno err = None \<longleftrightarrow> \<not> (\<exists>n. Errno n \<in> set (errorTree err))"
  unfolding errorsAs_None
  by (metis asErrno_Some not_Some_eq)

lemma no_ExitError:
  "errorsAs asExitError err = None \<longleftrightarrow> \<not> (\<exists>c. ExitError c \<in> set (errorTree err))"
  unfolding errorsAs_None
  by (metis asExitError_Some not_Some_eq)

lemma no_ExitCodeErr:
  "errorsAs asExitCodeErr err = None \<longleftrightarrow> \<not> (\<exists>m c. ExitCodeErr m c \<in> set (errorTree err))"
  unfolding errorsAs_None
  by (metis asExitCodeErr_Some not_Some_eq)

lemma extract_Errno:
  assumes "\<exists>n. Errno n \<in> set (errorTree err)"
  shows "\<exists>n. Errno n \<in> set (errorTree err) \<and> extractExitCode err = (int n, True)"
proof -
  from assms obtain n where n: "errorsAs asErrno err = Some n"
    using no_Errno by (cases "errorsAs asErrno err") auto
  from errorsAs_Some [OF n] have "Errno n \<in> set (errorTree err)"
    by (auto simp: asErrno_Some)
  with n show ?thesis by (auto simp: extractExitCode_def)
qed

lemma extract_ExitError:
  assumes "\<not> (\<exists>n. Errno n \<in> set (errorTree err))" and "\<exists>c. ExitError c \<in> set (errorTree err)"
  shows "\<exists>c. ExitError c \<in> set (errorTree err) \<and> extractExitCode err = (c, True)"
proof -
  from assms(1) have e: "errorsAs asErrno err = None" using no_Errno by blast
  from assms(2) obtain c where c: "errorsAs asExitError err = Some c"
    using no_ExitError by (cases "errorsAs asExitError err") auto
  from errorsAs_Some [OF c] have "ExitError c \<in> set (errorTree err)"
    by (auto simp: asExitError_Some)
  with e c show ?thesis by (auto simp: extractExitCode_def)
qed

lemma extract_ExitCodeErr:
  assumes "\<not> (\<exists>n. Errno n \<in> set (errorTree err))"
    and "\<not> (\<exists>c. ExitError c \<in> set (errorTree err))"
    and "\<exists>m c. ExitCodeErr m c \<in> set (errorTree err)"
  shows "\<exists>m c. ExitCodeErr m c \<in> set (errorTree err) \<and> extractExitCode err = (c, True)"
proof -
  from assms(1) have e: "errorsAs asErrno err = None" using no_Errno by blast
  from assms(2) have x: "errorsAs asExitError err = None" using no_ExitError by blast
  from assms(3) obtain c where c: "errorsAs asExitCodeErr err = Some c"
    using no_ExitCodeErr by (cases "errorsAs asExitCodeErr err") auto
  from errorsAs_Some [OF c] obtain m where "ExitCodeErr m c \<in> set (errorTree err)"
    by (auto simp: asExitCodeErr_Some)
  with e x c show ?thesis by (auto simp: extractExitCode_def)
qed

lemma extract_none:
  assumes "\<not> (\<exists>n. Errno n \<in> set (errorTree err))"
    and "\<not> (\<exists>c. ExitError c \<in> set (errorTree err))"
    and "\<not> (\<exists>m c. ExitCodeErr m c \<in> set (errorTree err))"
  shows "extractExitCode err = (0, False)"
proof -
  from assms(1) have "errorsAs asErrno err = None" using no_Errno by blast
  moreover from assms(2) have "errorsAs asExitError err = None" using no_ExitError by blast
  moreover from assms(3) have "errorsAs asExitCodeErr err = None"
    using no_ExitCodeErr by blast
  ultimately show ?thesis by (simp add: extractExitCode_def)
qed

lemma runCommands_wantExitCode:
  assumes "prepareCommand (\<lambda>name. LookupEnv sys name w) cmd0
      = Ok (cmd, True, want, name, args, infile)"
    and "want \<noteq> 0" and "Commands ts name = Some f"
    and "f args infile w = ((out, Some err), w')"
  shows "runCommands sys ts start i (cmd0 # rest) allout w =
       (if \<not> snd (extractExitCode err) then (Error (ErrNoExitCode (start + i) cmd), w')
        else if fst (extractExitCode err) \<noteq> want
        then (Error (ErrExitCode (start + i) cmd (fst (extractExitCode err)) want), w')
        else runCommands sys ts start (i + 1) rest (allout @ out) w')"
  using assms by (simp add: checkResult_def split: prod.splits)

theorem extractExitCode_order:
  "((\<exists>n. Errno n \<in> set (errorTree err)) \<longrightarrow>
      (\<exists>n. Errno n \<in> set (errorTree err) \<and> extractExitCode err = (int n, True))) \<and>
   (\<not> (\<exists>n. Errno n \<in> set (errorTree err)) \<and> (\<exists>c. ExitError c \<in> set (errorTree err)) \<longrightarrow>
      (\<exists>c. ExitError c \<in> set (errorTree err) \<and> extractExitCode err = (c, True))) \<and>
   (\<not> (\<exists>n. Errno n \<in> set (errorTree err)) \<and> \<not> (\<exists>c. ExitError c \<in> set (errorTree err))
      \<and> (\<exists>m c. ExitCodeErr m c \<in> set (errorTree err)) \<longrightarrow>
      (\<exists>m c. ExitCodeErr m c \<in> set (errorTree err) \<and> extractExitCode err = (c, True))) \<and>
   (\<not> (\<exists>n. Errno n \<in> set (errorTree err)) \<and> \<not> (\<exists>c. ExitError c \<in> set (errorTree err))
      \<and> \<not> (\<exists>m c. ExitCodeErr m c \<in> set (errorTree err)) \<longrightarrow>
      extractExitCode err = (0, False)) \<and>
   (prepareCommand (\<lambda>name. LookupEnv sys name w) cmd0
        = Ok (cmd, True, want, name, args, infile)
      \<and> want \<noteq> 0 \<and> Commands ts name = Some f \<and> f args infile w = ((out, Some err), w') \<longrightarrow>
      runCommands sys ts start i (cmd0 # rest) allout w =
       (if \<not> snd (extractExitCode err) then (Error (ErrNoExitCode (start + i) cmd), w')
        else if fst (extractExitCode err) \<noteq> want
        then (Error (ErrExitCode (start + i) cmd (fst (extractExitCode err)) want), w')
        else runCommands sys ts start (i + 1) rest (allout @ out) w'))"
  using extract_Errno [of err] extract_ExitError [of err] extract_ExitCodeErr [of err]
    extract_none [of err]
    runCommands_wantExitCode [of sys w cmd0 cmd want name args infile ts f out err w' start i rest allout]
  by (intro conjI impI) blast+

theorem extractExitCode_order_witness:
  "extractExitCode (JoinError [ExitError 3, Errno 2]) = (2, True) \<and>
   extractExitCode (ExitError 3) = (3, True) \<and>
   extractExitCode code17Error = (17, True) \<and>
   extractExitCode (ErrorString ''need exactly 1 arguments'') = (0, False) \<and>
   runCommands testSys testSuite 1 0 [''code17 --> FAIL 4''] [] []
     = (Error (ErrExitCode 1 ''code17'' 17 4), [''code17''])"
proof (intro conjI)
  let ?e = "JoinError [ExitError 3, Errno 2]"
  have "\<exists>n. Errno n \<in> set (errorTree ?e)" by simp
  with extractExitCode_order [where err = ?e, THEN conjunct1]
  obtain n where "Errno n \<in> set (errorTree ?e)" "extractExitCode ?e = (int n, True)" by blast
  then show "extractExitCode ?e = (2, True)" by simp
next
  have "\<not> (\<exists>n. Errno n \<in> set (errorTree (ExitError 3)))
      \<and> (\<exists>c. ExitError c \<in> set (errorTree (ExitError 3)))" by simp
  with extractExitCode_order [where err = "ExitError 3", THEN conjunct2, THEN conjunct1]
  obtain c where "ExitError c \<in> set (errorTree (ExitError 3))"
    "extractExitCode (ExitError 3) = (c, True)" by blast
  then show "extractExitCode (ExitError 3) = (3, True)" by simp
next
  have "\<not> (\<exists>n. Errno n \<in> set (errorTree code17Error))
      \<and> \<not> (\<exists>c. ExitError c \<in> set (errorTree code17Error))
      \<and> (\<exists>m c. ExitCodeErr m c \<in> set (errorTree code17Error))"
    by (simp add: code17Error_def)
  with extractExitCode_order [where err = code17Error, THEN conjunct2, THEN conjunct2,
      THEN conjunct1]
  obtain m c where "ExitCodeErr m c \<in> set (errorTree code17Error)"
    "extractExitCode code17Error = (c, True)" by blast
  then show "extractExitCode code17Error = (17, True)" by (simp add: code17Error_def)
next
  let ?e = "ErrorString ''need exactly 1 arguments''"
  have "\<not> (\<exists>n. Errno n \<in> set (errorTree ?e)) \<and> \<not> (\<exists>c. ExitError c \<in> set (errorTree ?e))
      \<and> \<not> (\<exists>m c. ExitCodeErr m c \<in> set (errorTree ?e))" by simp
  with extractExitCode_order [where err = ?e, THEN conjunct2, THEN conjunct2, THEN conjunct2,
      THEN conjunct1]
  show "extractExitCode ?e = (0, False)" by blast
next
  let ?f = "\<lambda>(args :: string list) (infile :: string) (w :: string list).
     (([] :: string, Some code17Error), w @ [''code17''])"
  have p: "prepareCommand (\<lambda>name. LookupEnv testSys name []) ''code17 --> FAIL 4''
      = Ok (''code17'', True, 4, ''code17'', [], [])" by code_simp
  have c: "Commands testSuite ''code17'' = Some ?f"
    by (simp add: testSuite_def testCommands_def code17Error_def)
  have x: "extractExitCode code17Error = (17, True)" by code_simp
  from extractExitCode_order [where err = code17Error and sys = testSys and w = "[]"
      and ?cmd0.0 = "''code17 --> FAIL 4''" and cmd = "''code17''" and want = 4
      and name = "''code17''" and args = "[]" and infile = "[]" and ts = testSuite and f = ?f
      and out = "[]" and w' = "[''code17'']" and start = 1 and i = 0 and rest = "[]"
      and allout = "[]",
      THEN conjunct2, THEN conjunct2, THEN conjunct2, THEN conjunct2] p c
  show "runCommands testSys testSuite 1 0 [''code17 --> FAIL 4''] [] []
     = (Error (ErrExitCode 1 ''code17'' 17 4), [''code17''])"
    by (simp add: x)
qed

theorem extractExitCode_order_counterexample:
  "extractExitCode (JoinError [ExitError 3, Errno 2]) = (2, True) \<and>
   extractExitCodeAsStated (JoinError [ExitError 3, Errno 2]) = (3, True) \<and>
   checkResult 1 ''cmd'' True 3 (Some (JoinError [ExitError 3, Errno 2]))
     = Some (ErrExitCode 1 ''cmd'' 2 3)"
  by (intro conjI; code_simp)

lemma executeCases_append:
  assumes "executeCases sys ts par name pre w = (Ok (), pre', w1)"
  shows "executeCases sys ts par name (pre @ rest) w =
     (case executeCases sys ts par name rest w1 of (r, rest', w2) \<Rightarrow> (r, pre' @ rest', w2))"
  using assms
proof (induction pre arbitrary: w pre')
  case Nil
  then show ?case by (simp split: prod.splits)
next
  case (Cons tc pre)
  obtain r tc' w' where t: "tc_execute sys ts par tc w = (r, tc', w')"
    by (cases "tc_execute sys ts par tc w") auto
  show ?case
  proof (cases r)
    case (Ok u)
    obtain r2 pre2 w2 where e: "executeCases sys ts par name pre w' = (r2, pre2, w2)"
      by (cases "executeCases sys ts par name pre w'") auto
    from Cons.prems t Ok e have "r2 = Ok ()" "pre' = tc' # pre2" "w2 = w1" by auto
    with e have "executeCases sys ts par name pre w' = (Ok (), pre2, w1)" by simp
    from Cons.IH [OF this] show ?thesis
      using t Ok \<open>pre' = tc' # pre2\<close> by (simp split: prod.splits)
  next
    case (Error err)
    with Cons.prems t show ?thesis by simp
  next
    case (Panic msg)
    with Cons.prems t show ?thesis by simp
  qed
qed

lemma executeCases_stops:
  assumes "executeCases sys ts par name pre w = (Ok (), pre', w1)"
    and "tc_execute sys ts par tc w1 = (Error err, tc', w2)"
  shows "executeCases sys ts par name (pre @ tc # post) w =
     (Error (ErrInFile name '':'' err), pre' @ tc' # post, w2)"
  using executeCases_append [OF assms(1), of "tc # post"] assms(2) by simp

lemma compareFiles_length:
  "compareFiles sys ts par fs w = (rs, fs', w') \<Longrightarrow> list_all notPanic rs \<Longrightarrow>
     length rs = length fs"
proof (induction fs arbitrary: w rs fs' w')
  case Nil
  then show ?case by simp
next
  case (Cons f fs)
  obtain r f' w1 where t: "tf_compare sys ts par f w = (r, f', w1)"
    by (cases "tf_compare sys ts par f w") auto
  obtain rs2 fs2 w2 where c: "compareFiles sys ts par fs w1 = (rs2, fs2, w2)"
    by (cases "compareFiles sys ts par fs w1") auto
  show ?case
  proof (cases r)
    case (Panic msg)
    with Cons.prems t show ?thesis by (auto simp: notPanic_def)
  next
    case (Ok rep)
    with Cons.prems t c have "rs = r # rs2" by auto
    with Cons.prems(2) Cons.IH [OF c] show ?thesis by simp
  next
    case (Error err)
    with Cons.prems t c have "rs = r # rs2" by auto
    with Cons.prems(2) Cons.IH [OF c] show ?thesis by simp
  qed
qed

lemma compareFiles_append:
  "compareFiles sys ts par fs1 w = (rs1, fs1', w1) \<Longrightarrow> list_all notPanic rs1 \<Longrightarrow>
     compareFiles sys ts par (fs1 @ fs2) w =
       (case compareFiles sys ts par fs2 w1 of
          (rs2, fs2', w2) \<Rightarrow> (rs1 @ rs2, fs1' @ fs2', w2))"
proof (induction fs1 arbitrary: w rs1 fs1' w1)
  case Nil
  then show ?case by (simp split: prod.splits)
next
  case (Cons f fs)
  obtain r f' w' where t: "tf_compare sys ts par f w = (r, f', w')"
    by (cases "tf_compare sys ts par f w") auto
  obtain rs2 fs2 w2 where c: "compareFiles sys ts par fs w' = (rs2, fs2, w2)"
    by (cases "compareFiles sys ts par fs w'") auto
  show ?case
  proof (cases r)
    case (Panic msg)
    with Cons.prems t show ?thesis by (auto simp: notPanic_def)
  next
    case (Ok rep)
    with Cons.prems t c have e: "rs1 = r # rs2" "fs1' = f' # fs2" "w1 = w2" by auto
    with Cons.prems(2) have "list_all notPanic rs2" by simp
    from Cons.IH [OF c this] show ?thesis
      using t Ok e by (simp split: prod.splits)
  next
    case (Error err)
    with Cons.prems t c have e: "rs1 = r # rs2" "fs1' = f' # fs2" "w1 = w2" by auto
    with Cons.prems(2) have "list_all notPanic rs2" by simp
    from Cons.IH [OF c this] show ?thesis
      using t Error e by (simp split: prod.splits)
  qed
qed

theorem execute_stops_at_first_error:
  "(executeCases sys ts par name pre w = (Ok (), pre', w1)
      \<and> tc_execute sys ts par tc w1 = (Error err, tc', w2) \<longrightarrow>
      executeCases sys ts par name (pre @ tc # post) w =
        (Error (ErrInFile name '':'' err), pre' @ tc' # post, w2)) \<and>
   (tf_execute sys ts par tf w = (Error err, tf', w3) \<longrightarrow>
      tf_compare sys ts par tf w = (Ok (ExecError err), tf', w3)
      \<and> compareFiles sys ts par (tf # fs2) w =
          (case compareFiles sys ts par fs2 w3 of
             (rs2, fs2', w4) \<Rightarrow> (Ok (ExecError err) # rs2, tf' # fs2', w4))) \<and>
   (compareFiles sys ts par fs1 w = (rs1, fs1', w5) \<and> list_all notPanic rs1 \<longrightarrow>
      length rs1 = length fs1
      \<and> compareFiles sys ts par (fs1 @ fs2) w =
          (case compareFiles sys ts par fs2 w5 of
             (rs2, fs2', w6) \<Rightarrow> (rs1 @ rs2, fs1' @ fs2', w6)))"
proof (intro conjI impI)
  assume "executeCases sys ts par name pre w = (Ok (), pre', w1)
      \<and> tc_execute sys ts par tc w1 = (Error err, tc', w2)"
  then have "executeCases sys ts par name pre w = (Ok (), pre', w1)"
    and "tc_execute sys ts par tc w1 = (Error err, tc', w2)" by simp_all
  then show "executeCases sys ts par name (pre @ tc # post) w =
        (Error (ErrInFile name '':'' err), pre' @ tc' # post, w2)"
    by (rule executeCases_stops)
next
  assume a: "tf_execute sys ts par tf w = (Error err, tf', w3)"
  then show c: "tf_compare sys ts par tf w = (Ok (ExecError err), tf', w3)"
    by (simp add: tf_compare_def)
  show "compareFiles sys ts par (tf # fs2) w =
          (case compareFiles sys ts par fs2 w3 of
             (rs2, fs2', w4) \<Rightarrow> (Ok (ExecError err) # rs2, tf' # fs2', w4))"
    by (simp add: c)
next
  assume a: "compareFiles sys ts par fs1 w = (rs1, fs1', w5) \<and> list_all notPanic rs1"
  then have a1: "compareFiles sys ts par fs1 w = (rs1, fs1', w5)"
    and a2: "list_all notPanic rs1" by simp_all
  from a1 a2 show "length rs1 = length fs1" by (rule compareFiles_length)
  from a1 a2 show "compareFiles sys ts par (fs1 @ fs2) w =
          (case compareFiles sys ts par fs2 w5 of
             (rs2, fs2', w6) \<Rightarrow> (rs1 @ rs2, fs1' @ fs2', w6))"
    by (rule compareFiles_append)
qed

theorem execute_stops_at_first_error_witness:
  "executeCases testSys testSuite False ''a.ct'' (cases fileA) []
     = (Error (ErrInFile ''a.ct'' '':'' (ErrFailedWith 3 ''code17'' code17Error)),
        [(mkCase 1 [''say a''] [''a''])\<lparr>gotOutput := Some [''a'']\<rparr>, mkCase 3 [''code17''] [],
         mkCase 5 [''say b''] [''b'']],
        [''saya'', ''code17'']) \<and>
   fst (compareFiles testSys testSuite False [fileA, fileB] [])
     = [Ok (ExecError (ErrInFile ''a.ct'' '':'' (ErrFailedWith 3 ''code17'' code17Error))),
        Ok (Diffs [(mkCase 1 [''say c''] [''x''])\<lparr>gotOutput := Some [''c'']\<rparr>])] \<and>
   snd (snd (compareFiles testSys testSuite False [fileA, fileB] []))
     = [''saya'', ''code17'', ''sayc'']"
proof -
  let ?err = "ErrFailedWith 3 ''code17'' code17Error"
  let ?a1 = "(mkCase 1 [''say a''] [''a''])\<lparr>gotOutput := Some [''a'']\<rparr>"
  have 1: "executeCases testSys testSuite False ''a.ct'' [mkCase 1 [''say a''] [''a'']] []
      = (Ok (), [?a1], [''saya''])" by code_simp
  have 2: "tc_execute testSys testSuite False (mkCase 3 [''code17''] []) [''saya'']
      = (Error ?err, mkCase 3 [''code17''] [], [''saya'', ''code17''])" by code_simp
  have A: "executeCases testSys testSuite False ''a.ct'' (cases fileA) []
     = (Error (ErrInFile ''a.ct'' '':'' ?err),
        [?a1, mkCase 3 [''code17''] [], mkCase 5 [''say b''] [''b'']],
        [''saya'', ''code17''])"
    using execute_stops_at_first_error [where sys = testSys and ts = testSuite and par = False
        and name = "''a.ct''" and pre = "[mkCase 1 [''say a''] [''a'']]" and w = "[]"
        and pre' = "[?a1]" and ?w1.0 = "[''saya'']" and tc = "mkCase 3 [''code17''] []"
        and err = ?err and tc' = "mkCase 3 [''code17''] []" and ?w2.0 = "[''saya'', ''code17'']"
        and post = "[mkCase 5 [''say b''] [''b'']]", THEN conjunct1] 1 2
    by (simp add: fileA_def)
  let ?fa' = "fileA\<lparr>cases := [?a1, mkCase 3 [''code17''] [], mkCase 5 [''say b''] [''b'']]\<rparr>"
  have 3: "tf_execute testSys testSuite False fileA []
      = (Error (ErrInFile ''a.ct'' '':'' ?err), ?fa', [''saya'', ''code17''])"
    by code_simp
  have 4: "compareFiles testSys testSuite False [fileB] [''saya'', ''code17'']
      = ([Ok (Diffs [(mkCase 1 [''say c''] [''x''])\<lparr>gotOutput := Some [''c'']\<rparr>])],
         [fileB\<lparr>cases := [(mkCase 1 [''say c''] [''x''])\<lparr>gotOutput := Some [''c'']\<rparr>]\<rparr>],
         [''saya'', ''code17'', ''sayc''])"
    by code_simp
  have B: "compareFiles testSys testSuite False [fileA, fileB] [] =
      ([Ok (ExecError (ErrInFile ''a.ct'' '':'' ?err)),
        Ok (Diffs [(mkCase 1 [''say c''] [''x''])\<lparr>gotOutput := Some [''c'']\<rparr>])],
       [?fa', fileB\<lparr>cases := [(mkCase 1 [''say c''] [''x''])\<lparr>gotOutput := Some [''c'']\<rparr>]\<rparr>],
       [''saya'', ''code17'', ''sayc''])"
    using execute_stops_at_first_error [where sys = testSys and ts = testSuite and par = False
        and tf = fileA and w = "[]" and err = "ErrInFile ''a.ct'' '':'' ?err" and tf' = ?fa'
        and ?w3.0 = "[''saya'', ''code17'']" and ?fs2.0 = "[fileB]",
        THEN conjunct2, THEN conjunct1] 3
    by (simp only: 4 prod.case simp_thms)
  show ?thesis using A B by simp
qed

theorem empty_command_panics:
  "(commands tc = [] # cmds \<longrightarrow>
      tc_execute sys ts par tc w
        = (Panic ''index out of range [0] with length 0'', tc\<lparr>gotOutput := None\<rparr>, w)
      \<and> executeCases sys ts par name (tc # tcs) w
        = (Panic ''index out of range [0] with length 0'', tc\<lparr>gotOutput := None\<rparr> # tcs, w)) \<and>
   readFile ''x.ct'' (''$'' @ [CHR 0x0A])
     = Ok \<lparr>filename = ''x.ct'', cases = [mkCase 1 [[]] []], suffixLines = []\<rparr>"
proof (intro conjI impI)
  assume c: "commands tc = [] # cmds"
  have "prepareCommand lookup [] = Panic ''index out of range [0] with length 0''" for lookup
    by code_simp
  then show t: "tc_execute sys ts par tc w
        = (Panic ''index out of range [0] with length 0'', tc\<lparr>gotOutput := None\<rparr>, w)"
    using c by (simp add: tc_execute_def)
  show "executeCases sys ts par name (tc # tcs) w
        = (Panic ''index out of range [0] with length 0'', tc\<lparr>gotOutput := None\<rparr> # tcs, w)"
    by (simp add: t)
next
  have s: "Scan (''$'' @ [CHR 0x0A]) = ([''$''], None)"
    by (simp add: Scan_def MaxScanTokenSize_def dropCR_def)
  show "readFile ''x.ct'' (''$'' @ [CHR 0x0A])
     = Ok \<lparr>filename = ''x.ct'', cases = [mkCase 1 [[]] []], suffixLines = []\<rparr>"
    unfolding readFile_Scan [OF s] by code_simp
qed

theorem empty_command_panics_witness:
  "tc_execute testSys testSuite False (mkCase 1 [[]] []) []
     = (Panic ''index out of range [0] with length 0'', mkCase 1 [[]] [], []) \<and>
   tf_execute testSys testSuite True
       \<lparr>filename = ''x.ct'', cases = [mkCase 1 [[]] []], suffixLines = []\<rparr> []
     = (Panic ''index out of range [0] with length 0'',
        \<lparr>filename = ''x.ct'', cases = [mkCase 1 [[]] []], suffixLines = []\<rparr>, [])"
proof -
  have c: "commands (mkCase 1 [[]] []) = [] # []" by (simp add: mkCase_def)
  have g: "(mkCase 1 [[]] [])\<lparr>gotOutput := None\<rparr> = mkCase 1 [[]] []" by (simp add: mkCase_def)
  from empty_command_panics [where tc = "mkCase 1 [[]] []" and cmds = "[]" and sys = testSys
      and ts = testSuite and par = False and w = "[]", THEN conjunct1] c
  have 1: "tc_execute testSys testSuite False (mkCase 1 [[]] []) []
     = (Panic ''index out of range [0] with length 0'', mkCase 1 [[]] [], [])"
    by (simp add: g)
  from empty_command_panics [where tc = "mkCase 1 [[]] []" and cmds = "[]" and sys = testSys
      and ts = testSuite and par = True and w = "[]" and name = "''x.ct''" and tcs = "[]",
      THEN conjunct1] c
  have "executeCases testSys testSuite True ''x.ct'' [mkCase 1 [[]] []] []
     = (Panic ''index out of range [0] with length 0'', [mkCase 1 [[]] []], [])"
    by (simp add: g)
  then have 2: "tf_execute testSys testSuite True
       \<lparr>filename = ''x.ct'', cases = [mkCase 1 [[]] []], suffixLines = []\<rparr> []
     = (Panic ''index out of range [0] with length 0'',
        \<lparr>filename = ''x.ct'', cases = [mkCase 1 [[]] []], suffixLines = []\<rparr>, [])"
    by (simp add: tf_execute_def setupAndRun_def testSuite_def)
  from 1 2 show ?thesis by simp
qed

subsection \<open>Update mode\<close>

lemma writeChunks_append:
  "writeChunks wr w (xs @ ys) =
     (case writeChunks wr w xs of
        (Some err, w') \<Rightarrow> (Some err, w')
      | (None, w') \<Rightarrow> writeChunks wr w' ys)"
  by (induction xs arbitrary: w) (auto split: prod.splits option.splits)

lemma writeLines_chunks: "writeLines wr w ls = writeChunks wr w (lineChunks ls)"
  by (induction ls arbitrary: w) (auto simp: lineChunks_def split: prod.splits option.splits)

lemma writeCommandList_chunks:
  "writeCommandList wr w cs = writeChunks wr w (map (\<lambda>c. ''$ '' @ c @ [CHR 0x0A]) cs)"
  by (induction cs arbitrary: w) (auto split: prod.splits option.splits)

lemma tc_write_chunks: "tc_write wr w tc = writeChunks wr w (caseChunks tc)"
  by (simp add: tc_write_def writeCommands_def caseChunks_def writeChunks_append
      writeLines_chunks writeCommandList_chunks split: prod.splits option.splits)

lemma writeCases_chunks:
  "writeCases wr w cs = writeChunks wr w (concat (map caseChunks cs))"
  by (induction cs arbitrary: w)
    (auto simp: tc_write_chunks writeChunks_append split: prod.splits option.splits)

lemma tf_write_chunks: "tf_write wr w tf = writeChunks wr w (fileChunks tf)"
  by (simp add: tf_write_def fileChunks_def writeCases_chunks writeLines_chunks
      writeChunks_append split: prod.splits option.splits)

lemma writeChunks_buffer: "writeChunks bufferWrite buf ds = (None, buf @ concat ds)"
  by (induction ds arbitrary: buf) (simp_all add: bufferWrite_def)

lemma tempWrite_step:
  assumes "fsFiles w (t_name t) = Some c" and "tempWrite fl t w d = (res, w')"
  shows "(\<forall>p. p \<noteq> t_name t \<longrightarrow> fsFiles w' p = fsFiles w p)
     \<and> (\<exists>c'. fsFiles w' (t_name t) = Some c')
     \<and> (res = None \<longrightarrow> fsFiles w' (t_name t) = Some (c @ d))"
  using assms
  by (auto simp: tempWrite_def Let_def contentOf_def split: option.splits if_splits prod.splits)

lemma writeChunks_temp:
  assumes "fsFiles w (t_name t) = Some c" and "writeChunks (tempWrite fl t) w ds = (res, w')"
  shows "(\<forall>p. p \<noteq> t_name t \<longrightarrow> fsFiles w' p = fsFiles w p)
     \<and> (\<exists>c'. fsFiles w' (t_name t) = Some c')
     \<and> (res = None \<longrightarrow> fsFiles w' (t_name t) = Some (c @ concat ds))"
  using assms
proof (induction ds arbitrary: w c)
  case Nil
  then show ?case by simp
next
  case (Cons d ds)
  obtain r1 w1 where s: "tempWrite fl t w d = (r1, w1)" by (cases "tempWrite fl t w d") auto
  from tempWrite_step [OF Cons.prems(1) s] have
    a: "\<forall>p. p \<noteq> t_name t \<longrightarrow> fsFiles w1 p = fsFiles w p"
    and b: "\<exists>c'. fsFiles w1 (t_name t) = Some c'"
    and c: "r1 = None \<longrightarrow> fsFiles w1 (t_name t) = Some (c @ d)" by auto
  show ?case
  proof (cases r1)
    case (Some err)
    with Cons.prems(2) s have "res = Some err" "w' = w1" by auto
    with a b show ?thesis by simp
  next
    case None
    with Cons.prems(2) s have r: "writeChunks (tempWrite fl t) w1 ds = (res, w')" by simp
    from c None have "fsFiles w1 (t_name t) = Some (c @ d)" by simp
    from Cons.IH [OF this r] a show ?thesis by simp
  qed
qed

lemma executeCases_length:
  "executeCases sys ts par name tcs w = (r, tcs', w') \<Longrightarrow> length tcs' = length tcs"
  by (induction tcs arbitrary: w r tcs' w')
    (auto split: prod.splits result.splits)

lemma setupAndRun_filename:
  "setupAndRun sys ts par rootDir tf w = (r, tf1, w1) \<Longrightarrow> filename tf1 = filename tf"
  by (auto simp: setupAndRun_def split: prod.splits option.splits)

lemma tf_execute_filename:
  "tf_execute sys ts par tf w = (r, tf1, w1) \<Longrightarrow> filename tf1 = filename tf"
  by (auto simp: tf_execute_def Let_def dest: setupAndRun_filename
      split: if_splits prod.splits option.splits sum.splits)

lemma Cleanup_failed:
  assumes "\<not> t_done t" and "Cleanup fl t w = (res, w')"
  shows "(\<forall>p. p \<noteq> t_name t \<longrightarrow> fsFiles w' p = fsFiles w p)
     \<and> (removeErr fl = None \<longrightarrow> fsFiles w' = (fsFiles w)(t_name t := None))"
  using assms
  by (auto simp: Cleanup_def Remove_def Let_def split: option.splits prod.splits)

lemma CloseAtomicallyReplace_cases:
  assumes "CloseAtomicallyReplace fl t w = (res, t', w')" and "\<not> t_done t"
  shows "t_name t' = t_name t \<and>
    (case res of
       Some err \<Rightarrow> w' = w \<and> \<not> t_done t'
     | None \<Rightarrow> t_done t'
         \<and> fsFiles w' = (fsFiles w)(t_name t := None, t_path t := fsFiles w (t_name t)))"
proof (cases "syncErr fl")
  case (Some err)
  with assms(1) have "res = Some err" "t' = t" "w' = w"
    by (simp_all add: CloseAtomicallyReplace_def)
  with assms(2) show ?thesis by simp
next
  case None
  note s = this
  show ?thesis
  proof (cases "closeErr fl")
    case (Some err)
    with assms(1) s have "res = Some err" "t' = t\<lparr>t_closed := True\<rparr>" "w' = w"
      by (simp_all add: CloseAtomicallyReplace_def Let_def)
    with assms(2) show ?thesis by simp
  next
    case None
    note c = this
    show ?thesis
    proof (cases "renameErr fl")
      case (Some err)
      with assms(1) s c have "res = Some err" "t' = t\<lparr>t_closed := True\<rparr>" "w' = w"
        by (simp_all add: CloseAtomicallyReplace_def Rename_def Let_def)
      with assms(2) show ?thesis by simp
    next
      case None
      with assms(1) s c have "res = None" "t' = t\<lparr>t_closed := True, t_done := True\<rparr>"
        "w' = w\<lparr>fsFiles := (fsFiles w)(t_name t := None, t_path t := fsFiles w (t_name t))\<rparr>"
        by (simp_all add: CloseAtomicallyReplace_def Rename_def Let_def)
      then show ?thesis by simp
    qed
  qed
qed

lemma updateFile_after_execute_error:
  assumes "tf_execute sys ts par tf w = (Error err, tf1, w1)"
  shows "updateFile sys ts par fl tmp tf w = (Ok [err], tf1, w1)"
  using assms by (simp add: updateFile_def updateToTemp_def)

lemma updateFile_after_execute_panic:
  assumes "tf_execute sys ts par tf w = (Panic msg, tf1, w1)"
  shows "updateFile sys ts par fl tmp tf w = (Panic msg, tf1, w1)"
  using assms by (simp add: updateFile_def updateToTemp_def)

lemma updateFile_after_create_error:
  assumes "tf_execute sys ts par tf w = (Ok u, tf1, w1)"
    and "createTempFile fl tmp (filename tf1) w1 = (Inl err, w2)"
  shows "updateFile sys ts par fl tmp tf w = (Ok [err], tf1, w1)"
  using assms
  by (auto simp: updateFile_def updateToTemp_def createTempFile_def
      split: option.splits if_splits)

lemma updateFile_with_temp:
  assumes e: "tf_execute sys ts par tf w = (Ok u, tf1, w1)"
    and c: "createTempFile fl tmp (filename tf1) w1 = (Inr t, w2)"
    and u: "updateFile sys ts par fl tmp tf w = (Ok errs, tf2, w3)"
    and ne: "tmp \<noteq> filename tf"
  shows "(errs \<noteq> [] \<longrightarrow> fsFiles w3 (filename tf) = fsFiles w1 (filename tf)
            \<and> (removeErr fl = None \<longrightarrow> fsFiles w3 = fsFiles w1))
     \<and> (errs = [] \<longrightarrow>
          fsFiles w3 = (fsFiles w1)(filename tf \<mapsto> concat (fileChunks tf1)))"
proof -
  have fn: "filename tf1 = filename tf" using e by (rule tf_execute_filename)
  from c have t: "t_name t = tmp" "t_path t = filename tf" "\<not> t_done t"
    and free: "fsFiles w1 tmp = None"
    and w2: "fsFiles w2 = (fsFiles w1)(tmp \<mapsto> [])"
    by (auto simp: createTempFile_def fn split: option.splits if_splits)
  obtain res wa where wr: "tf_write (tempWrite fl t) w2 tf1 = (res, wa)"
    by (cases "tf_write (tempWrite fl t) w2 tf1") auto
  then have "writeChunks (tempWrite fl t) w2 (fileChunks tf1) = (res, wa)"
    by (simp add: tf_write_chunks)
  moreover have "fsFiles w2 (t_name t) = Some []" by (simp add: w2 t)
  ultimately have
    a: "\<forall>p. p \<noteq> tmp \<longrightarrow> fsFiles wa p = fsFiles w2 p"
    and b: "\<exists>c'. fsFiles wa tmp = Some c'"
    and d: "res = None \<longrightarrow> fsFiles wa tmp = Some (concat (fileChunks tf1))"
    using writeChunks_temp [of w2 t "[]" fl "fileChunks tf1" res wa] t by auto
  have wa_name: "fsFiles wa (filename tf) = fsFiles w1 (filename tf)"
    using a ne by (simp add: w2)
  have wa_rm: "(fsFiles wa)(tmp := None) = fsFiles w1"
  proof
    fix p show "((fsFiles wa)(tmp := None)) p = fsFiles w1 p"
      using a free by (cases "p = tmp") (simp_all add: w2)
  qed
  define mainFlow where "mainFlow = (case res of
        Some err \<Rightarrow> ([err], t, wa)
      | None \<Rightarrow>
          (case CloseAtomicallyReplace fl t wa of
             (Some err, t', w2) \<Rightarrow> ([err], t', w2)
           | (None, t', w2) \<Rightarrow> ([], t', w2)))"
  obtain errs0 t' wb where m0: "mainFlow = (errs0, t', wb)" by (cases mainFlow) auto
  then have m: "(case res of
        Some err \<Rightarrow> ([err], t, wa)
      | None \<Rightarrow>
          (case CloseAtomicallyReplace fl t wa of
             (Some err, t', w2) \<Rightarrow> ([err], t', w2)
           | (None, t', w2) \<Rightarrow> ([], t', w2))) = (errs0, t', wb)"
    by (simp add: mainFlow_def)
  obtain cres wc where cl: "Cleanup fl t' wb = (cres, wc)" by (cases "Cleanup fl t' wb") auto
  have u': "updateFile sys ts par fl tmp tf w
      = (Ok (case cres of Some err \<Rightarrow> errs0 @ [err] | None \<Rightarrow> errs0), tf1, wc)"
    using e c wr m cl
    by (simp add: updateFile_def updateToTemp_def split: option.splits)
  with u have errs: "errs = (case cres of Some err \<Rightarrow> errs0 @ [err] | None \<Rightarrow> errs0)"
    and w3: "w3 = wc" by simp_all
  show ?thesis
  proof (cases "errs0 = []")
    case True
    with m obtain t1 where r: "res = None"
      and car: "CloseAtomicallyReplace fl t wa = (None, t', wb)"
      by (auto split: option.splits prod.splits)
    from CloseAtomicallyReplace_cases [OF car t(3)] have
      dn: "t_done t'"
      and wb: "fsFiles wb = (fsFiles wa)(t_name t := None, t_path t := fsFiles wa (t_name t))"
      by auto
    from dn cl have "cres = None" "wc = wb" by (auto simp: Cleanup_def)
    with errs True have "errs = []" by simp
    moreover have "fsFiles wb = (fsFiles w1)(filename tf \<mapsto> concat (fileChunks tf1))"
    proof -
      have "fsFiles wb = ((fsFiles wa)(tmp := None))(filename tf \<mapsto> concat (fileChunks tf1))"
        using wb d r t by simp
      then show ?thesis by (simp only: wa_rm)
    qed
    ultimately show ?thesis using w3 \<open>wc = wb\<close> by simp
  next
    case False
    have nd: "\<not> t_done t'" and tn: "t_name t' = tmp" and wbwa: "wb = wa"
    proof -
      show "\<not> t_done t'"
      proof (cases res)
        case (Some err)
        with m t show ?thesis by simp
      next
        case None
        with m False obtain err where
          "CloseAtomicallyReplace fl t wa = (Some err, t', wb)"
          by (auto split: option.splits prod.splits)
        from CloseAtomicallyReplace_cases [OF this t(3)] show ?thesis by simp
      qed
      show "t_name t' = tmp"
      proof (cases res)
        case (Some err)
        with m t show ?thesis by simp
      next
        case None
        with m False obtain err where
          "CloseAtomicallyReplace fl t wa = (Some err, t', wb)"
          by (auto split: option.splits prod.splits)
        from CloseAtomicallyReplace_cases [OF this t(3)] t show ?thesis by simp
      qed
      show "wb = wa"
      proof (cases res)
        case (Some err)
        with m show ?thesis by simp
      next
        case None
        with m False obtain err where
          "CloseAtomicallyReplace fl t wa = (Some err, t', wb)"
          by (auto split: option.splits prod.splits)
        from CloseAtomicallyReplace_cases [OF this t(3)] show ?thesis by simp
      qed
    qed
    from Cleanup_failed [OF nd cl] tn wbwa have
      k1: "\<forall>p. p \<noteq> tmp \<longrightarrow> fsFiles wc p = fsFiles wa p"
      and k2: "removeErr fl = None \<longrightarrow> fsFiles wc = (fsFiles wa)(tmp := None)"
      by auto
    have "errs \<noteq> []" using errs False by (cases cres) auto
    moreover have "fsFiles w3 (filename tf) = fsFiles w1 (filename tf)"
      using k1 ne wa_name w3 by simp
    moreover have "removeErr fl = None \<longrightarrow> fsFiles w3 = fsFiles w1"
      using k2 wa_rm w3 by simp
    ultimately show ?thesis by simp
  qed
qed

lemma updateFile_ok:
  "tmp \<noteq> filename tf \<and> tf_execute sys ts par tf w = (r, tf1, w1)
     \<and> updateFile sys ts par fl tmp tf w = (Ok errs, tf2, w2) \<longrightarrow>
     (errs \<noteq> [] \<longrightarrow>
        fsFiles w2 (filename tf) = fsFiles w1 (filename tf)
        \<and> (removeErr fl = None \<longrightarrow> fsFiles w2 = fsFiles w1)) \<and>
     (errs = [] \<longrightarrow>
        r = Ok ()
        \<and> tf_write bufferWrite [] tf1 = (None, concat (fileChunks tf1))
        \<and> fsFiles w2 = (fsFiles w1)(filename tf \<mapsto> concat (fileChunks tf1)))"
proof
  assume a: "tmp \<noteq> filename tf \<and> tf_execute sys ts par tf w = (r, tf1, w1)
     \<and> updateFile sys ts par fl tmp tf w = (Ok errs, tf2, w2)"
  then have ne: "tmp \<noteq> filename tf" and e: "tf_execute sys ts par tf w = (r, tf1, w1)"
    and u: "updateFile sys ts par fl tmp tf w = (Ok errs, tf2, w2)" by simp_all
  have bw: "tf_write bufferWrite [] tf1 = (None, concat (fileChunks tf1))"
    by (simp add: tf_write_chunks writeChunks_buffer)
  show "(errs \<noteq> [] \<longrightarrow>
        fsFiles w2 (filename tf) = fsFiles w1 (filename tf)
        \<and> (removeErr fl = None \<longrightarrow> fsFiles w2 = fsFiles w1)) \<and>
     (errs = [] \<longrightarrow>
        r = Ok ()
        \<and> tf_write bufferWrite [] tf1 = (None, concat (fileChunks tf1))
        \<and> fsFiles w2 = (fsFiles w1)(filename tf \<mapsto> concat (fileChunks tf1)))"
  proof (cases r)
    case (Panic msg)
    with e u updateFile_after_execute_panic [of sys ts par tf w msg tf1 w1 fl tmp]
    show ?thesis by simp
  next
    case (Error err)
    with e u updateFile_after_execute_error [of sys ts par tf w err tf1 w1 fl tmp]
    show ?thesis by auto
  next
    case (Ok x)
    obtain cr wx where c: "createTempFile fl tmp (filename tf1) w1 = (cr, wx)"
      by (cases "createTempFile fl tmp (filename tf1) w1") auto
    show ?thesis
    proof (cases cr)
      case (Inl err)
      with e Ok c u updateFile_after_create_error [of sys ts par tf w x tf1 w1 fl tmp err wx]
      show ?thesis by auto
    next
      case (Inr t)
      with e Ok c u ne updateFile_with_temp [of sys ts par tf w x tf1 w1 fl tmp t wx errs tf2 w2]
      show ?thesis using bw by simp
    qed
  qed
qed

lemma updateFile_result:
  assumes "tf_execute sys ts par tf w = (r, tf1, w1)"
    and "updateFile sys ts par fl tmp tf w = (res, tf2, w2)"
  shows "(\<exists>errs. res = Ok errs \<and> (\<forall>msg. r \<noteq> Panic msg))
     \<or> (\<exists>msg. res = Panic msg \<and> r = Panic msg \<and> w2 = w1)"
proof (cases r)
  case (Panic msg)
  with assms updateFile_after_execute_panic [of sys ts par tf w msg tf1 w1 fl tmp]
  show ?thesis by simp
next
  case (Error err)
  with assms updateFile_after_execute_error [of sys ts par tf w err tf1 w1 fl tmp]
  show ?thesis by auto
next
  case (Ok x)
  obtain cr wx where c: "createTempFile fl tmp (filename tf1) w1 = (cr, wx)"
    by (cases "createTempFile fl tmp (filename tf1) w1") auto
  show ?thesis
  proof (cases cr)
    case (Inl err)
    with assms Ok c updateFile_after_create_error [of sys ts par tf w x tf1 w1 fl tmp err wx]
    show ?thesis by auto
  next
    case (Inr t)
    obtain wres wa where wr: "tf_write (tempWrite fl t) wx tf1 = (wres, wa)"
      by (cases "tf_write (tempWrite fl t) wx tf1") auto
    define mainFlow where "mainFlow = (case wres of
        Some err \<Rightarrow> ([err], t, wa)
      | None \<Rightarrow>
          (case CloseAtomicallyReplace fl t wa of
             (Some err, t', w2) \<Rightarrow> ([err], t', w2)
           | (None, t', w2) \<Rightarrow> ([], t', w2)))"
    obtain errs0 t' wb where m0: "mainFlow = (errs0, t', wb)" by (cases mainFlow) auto
    then have m: "(case wres of
        Some err \<Rightarrow> ([err], t, wa)
      | None \<Rightarrow>
          (case CloseAtomicallyReplace fl t wa of
             (Some err, t', w2) \<Rightarrow> ([err], t', w2)
           | (None, t', w2) \<Rightarrow> ([], t', w2))) = (errs0, t', wb)"
      by (simp add: mainFlow_def)
    obtain cres wc where cl: "Cleanup fl t' wb = (cres, wc)" by (cases "Cleanup fl t' wb") auto
    have "updateFile sys ts par fl tmp tf w
        = (Ok (case cres of Some err \<Rightarrow> errs0 @ [err] | None \<Rightarrow> errs0), tf1, wc)"
      using assms(1) Ok c Inr wr m cl
      by (simp add: updateFile_def updateToTemp_def split: option.splits)
    with assms(2) Ok show ?thesis by auto
  qed
qed

text \<open>
  Claim C6. Update mode replaces the golden file in one step or leaves it alone. Let
  \<open>w1\<close> be the state after the commands of the file have run (what they do to the files
  is their business), and let \<open>tmp\<close>, the name that \<^verbatim>\<open>ioutil.TempFile\<close> picks, differ from
  the name of the golden file. The subtest that \<^verbatim>\<open>update\<close> runs for the file ends in one
  of two ways. Either the execution panics, and then nothing else happens; or it ends with
  the list \<open>errs\<close> of the errors it reports with \<^verbatim>\<open>t.Fatal\<close>. If it reports an error (of the
  execution, of creating the temporary file, of a write, of sync, close or rename, or of
  the clean-up), the golden file has the content it has in \<open>w1\<close>, and unless removing the
  temporary file fails all files are as in \<open>w1\<close>: the temporary file is gone. If it
  reports no error, the execution succeeded and the files are those of \<open>w1\<close> with the
  golden file holding what \<^verbatim>\<open>testFile.write\<close> writes for the executed file; again the
  temporary file is gone.
\<close>

theorem update_replaces_or_leaves:
  "tmp \<noteq> filename tf \<and> tf_execute sys ts par tf w = (r, tf1, w1)
     \<and> updateFile sys ts par fl tmp tf w = (res, tf2, w2) \<longrightarrow>
     (case res of
        Panic msg \<Rightarrow> r = Panic msg \<and> w2 = w1
      | Error err \<Rightarrow> False
      | Ok errs \<Rightarrow>
          (\<forall>msg. r \<noteq> Panic msg) \<and>
          (errs \<noteq> [] \<longrightarrow>
             fsFiles w2 (filename tf) = fsFiles w1 (filename tf)
             \<and> (removeErr fl = None \<longrightarrow> fsFiles w2 = fsFiles w1)) \<and>
          (errs = [] \<longrightarrow>
             r = Ok ()
             \<and> tf_write bufferWrite [] tf1 = (None, concat (fileChunks tf1))
             \<and> fsFiles w2 = (fsFiles w1)(filename tf \<mapsto> concat (fileChunks tf1))))"
proof
  assume a: "tmp \<noteq> filename tf \<and> tf_execute sys ts par tf w = (r, tf1, w1)
     \<and> updateFile sys ts par fl tmp tf w = (res, tf2, w2)"
  then have ne: "tmp \<noteq> filename tf" and e: "tf_execute sys ts par tf w = (r, tf1, w1)"
    and u: "updateFile sys ts par fl tmp tf w = (res, tf2, w2)" by simp_all
  from updateFile_result [OF e u] consider
    (ok) errs where "res = Ok errs" "\<forall>msg. r \<noteq> Panic msg"
    | (panic) msg where "res = Panic msg" "r = Panic msg" "w2 = w1"
    by blast
  then show "case res of
        Panic msg \<Rightarrow> r = Panic msg \<and> w2 = w1
      | Error err \<Rightarrow> False
      | Ok errs \<Rightarrow>
          (\<forall>msg. r \<noteq> Panic msg) \<and>
          (errs \<noteq> [] \<longrightarrow>
             fsFiles w2 (filename tf) = fsFiles w1 (filename tf)
             \<and> (removeErr fl = None \<longrightarrow> fsFiles w2 = fsFiles w1)) \<and>
          (errs = [] \<longrightarrow>
             r = Ok ()
             \<and> tf_write bufferWrite [] tf1 = (None, concat (fileChunks tf1))
             \<and> fsFiles w2 = (fsFiles w1)(filename tf \<mapsto> concat (fileChunks tf1)))"
  proof cases
    case ok
    from updateFile_ok [of tmp tf sys ts par w r tf1 w1 fl errs tf2 w2] ne e u ok
    show ?thesis by simp
  next
    case panic
    then show ?thesis by simp
  qed
qed

theorem update_replaces_or_leaves_witness:
  "fsFiles (snd (snd (updateFile fsSys fsSuite False noFaults ''/tmp/u.ct1'' goldenFile disk)))
       ''u.ct'' = Some (''$ say hi'' @ [CHR 0x0A] @ ''hi'' @ [CHR 0x0A]) \<and>
   fsFiles (snd (snd (updateFile fsSys fsSuite False noFaults ''/tmp/u.ct1'' goldenFile disk)))
       ''/tmp/u.ct1'' = None \<and>
   fsFiles (snd (snd (updateFile fsSys fsSuite False (noFaults\<lparr>renameErr := Some (Errno 13)\<rparr>)
       ''/tmp/u.ct1'' goldenFile disk))) ''u.ct'' = Some goldenText \<and>
   fsFiles (snd (snd (updateFile fsSys fsSuite False (noFaults\<lparr>renameErr := Some (Errno 13)\<rparr>)
       ''/tmp/u.ct1'' goldenFile disk))) ''/tmp/u.ct1'' = None"
proof -
  let ?e = "tf_execute fsSys fsSuite False goldenFile disk"
  let ?tf1 = "fst (snd ?e)"
  let ?w1 = "snd (snd ?e)"
  let ?fl = "noFaults\<lparr>renameErr := Some (Errno 13)\<rparr>"
  let ?u1 = "updateFile fsSys fsSuite False noFaults ''/tmp/u.ct1'' goldenFile disk"
  let ?u2 = "updateFile fsSys fsSuite False ?fl ''/tmp/u.ct1'' goldenFile disk"
  have ne: "''/tmp/u.ct1'' \<noteq> filename goldenFile" by (simp add: goldenFile_def)
  have fn: "filename goldenFile = ''u.ct''" by (simp add: goldenFile_def)
  have e: "?e = (fst ?e, ?tf1, ?w1)" by simp
  have ch: "concat (fileChunks ?tf1) = ''$ say hi'' @ [CHR 0x0A] @ ''hi'' @ [CHR 0x0A]"
    by code_simp
  have d1: "fsFiles ?w1 ''u.ct'' = Some goldenText" by code_simp
  have d2: "fsFiles ?w1 ''/tmp/u.ct1'' = None" by code_simp
  have 1: "fst ?u1 = Ok []" by code_simp
  have 2: "fst ?u2 = Ok [Errno 13]" by code_simp
  have r: "removeErr ?fl = None" by (simp add: noFaults_def)
  have u1: "?u1 = (Ok [], fst (snd ?u1), snd (snd ?u1))"
    by (subst 1 [symmetric]) simp
  have u2: "?u2 = (Ok [Errno 13], fst (snd ?u2), snd (snd ?u2))"
    by (subst 2 [symmetric]) simp
  from update_replaces_or_leaves [where tmp = "''/tmp/u.ct1''" and tf = goldenFile
      and sys = fsSys and ts = fsSuite and par = False and w = disk and r = "fst ?e"
      and ?tf1.0 = ?tf1 and ?w1.0 = ?w1 and fl = noFaults and res = "Ok []"
      and ?tf2.0 = "fst (snd ?u1)" and ?w2.0 = "snd (snd ?u1)"] ne e u1
  have a: "fsFiles (snd (snd ?u1)) = (fsFiles ?w1)(filename goldenFile \<mapsto> concat (fileChunks ?tf1))"
    by simp
  from update_replaces_or_leaves [where tmp = "''/tmp/u.ct1''" and tf = goldenFile
      and sys = fsSys and ts = fsSuite and par = False and w = disk and r = "fst ?e"
      and ?tf1.0 = ?tf1 and ?w1.0 = ?w1 and fl = ?fl and res = "Ok [Errno 13]"
      and ?tf2.0 = "fst (snd ?u2)" and ?w2.0 = "snd (snd ?u2)"] ne e u2 r
  have b: "fsFiles (snd (snd ?u2)) = fsFiles ?w1"
    by simp
  show ?thesis
    unfolding a b by (simp add: fn ch d1 d2)
qed

end
